theory Spec2Isabelle
  imports Main "HOL-Library.AList"
begin

section \<open>Python values\<close>

text \<open>
  The interaction payload is the result of decoding a JSON document: a tree of
  dictionaries with string keys, lists, strings, integers, booleans and \<open>None\<close>.
  A dictionary is an association list in insertion order; Python dictionaries have
  no duplicate keys, and every operation below reads and writes the first entry of
  a key, as \<open>map_of\<close> and \<open>AList.update\<close> do. Floating point numbers are left out:
  no code path of the context module inspects one. A character is a code point
  below 256.
\<close>

datatype json =
    JNull
  | JBool bool
  | JInt int
  | JStr string
  | JList "json list"
  | JObj "(string \<times> json) list"

text \<open>The exceptions the context module can raise, as values.\<close>

datatype error = KeyError | TypeError | AttributeError | IndexError | ValueError | HTTPError

definition ebind :: "error + 'a \<Rightarrow> ('a \<Rightarrow> error + 'b) \<Rightarrow> error + 'b" where
  "ebind m f = (case m of Inl e \<Rightarrow> Inl e | Inr x \<Rightarrow> f x)"

text \<open>Truth value of an object, as \<open>not x\<close> and \<open>x or y\<close> test it.\<close>

fun truthy :: "json \<Rightarrow> bool" where
  "truthy JNull = False"
| "truthy (JBool b) = b"
| "truthy (JInt i) = (i \<noteq> 0)"
| "truthy (JStr s) = (s \<noteq> [])"
| "truthy (JList xs) = (xs \<noteq> [])"
| "truthy (JObj kvs) = (kvs \<noteq> [])"

definition py_or :: "json \<Rightarrow> json \<Rightarrow> json" where
  "py_or x y = (if truthy x then x else y)"

text \<open>\<open>x == n\<close> for an integer constant \<open>n\<close>: \<open>True\<close> and \<open>False\<close> are the integers 1 and 0.\<close>

fun py_eq_int :: "json \<Rightarrow> int \<Rightarrow> bool" where
  "py_eq_int (JInt i) n = (i = n)"
| "py_eq_int (JBool b) n = ((if b then 1 else 0) = n)"
| "py_eq_int _ n = False"

text \<open>\<open>d.get(k, default)\<close>: only dictionaries have the method.\<close>

fun dict_get :: "json \<Rightarrow> string \<Rightarrow> json \<Rightarrow> error + json" where
  "dict_get (JObj kvs) k d = Inr (case map_of kvs k of Some v \<Rightarrow> v | None \<Rightarrow> d)"
| "dict_get _ k d = Inl AttributeError"

text \<open>\<open>d.items()\<close>.\<close>

fun dict_items :: "json \<Rightarrow> error + (string \<times> json) list" where
  "dict_items (JObj kvs) = Inr kvs"
| "dict_items _ = Inl AttributeError"

text \<open>
  An object used as a sequence index: integers and booleans. A negative index
  counts from the end of the sequence.
\<close>

fun index_of :: "json \<Rightarrow> int option" where
  "index_of (JInt i) = Some i"
| "index_of (JBool b) = Some (if b then 1 else 0)"
| "index_of _ = None"

definition seq_index :: "'a list \<Rightarrow> int \<Rightarrow> error + 'a" where
  "seq_index xs i =
     (if 0 \<le> i \<and> i < int (length xs) then Inr (xs ! nat i)
      else if i < 0 \<and> - int (length xs) \<le> i then Inr (xs ! nat (int (length xs) + i))
      else Inl IndexError)"

text \<open>Lists and dictionaries cannot be dictionary keys.\<close>

fun unhashable :: "json \<Rightarrow> bool" where
  "unhashable (JList xs) = True"
| "unhashable (JObj kvs) = True"
| "unhashable _ = False"

text \<open>
  The subscription \<open>x[k]\<close>. The keys of a decoded dictionary are strings, so a
  hashable key of another type is missing from it.
\<close>

fun subscript :: "json \<Rightarrow> json \<Rightarrow> error + json" where
  "subscript (JObj kvs) k =
     (case k of
        JStr s \<Rightarrow> (case map_of kvs s of Some v \<Rightarrow> Inr v | None \<Rightarrow> Inl KeyError)
      | _ \<Rightarrow> if unhashable k then Inl TypeError else Inl KeyError)"
| "subscript (JList xs) k =
     (case index_of k of Some i \<Rightarrow> seq_index xs i | None \<Rightarrow> Inl TypeError)"
| "subscript (JStr s) k =
     (case index_of k of
        Some i \<Rightarrow> (case seq_index s i of Inl e \<Rightarrow> Inl e | Inr c \<Rightarrow> Inr (JStr [c]))
      | None \<Rightarrow> Inl TypeError)"
| "subscript _ k = Inl TypeError"

text \<open>\<open>x[k] = v\<close> for a string key \<open>k\<close>: only a dictionary accepts it.\<close>

fun setitem :: "json \<Rightarrow> string \<Rightarrow> json \<Rightarrow> error + json" where
  "setitem (JObj kvs) k v = Inr (JObj (AList.update k v kvs))"
| "setitem _ k v = Inl TypeError"

text \<open>
  \<open>replace_child c k v\<close> is the container \<open>c\<close> once the object that \<open>c[k]\<close> refers to
  has been mutated into \<open>v\<close>. It is used only where \<open>subscript c k\<close> has succeeded.
\<close>

fun replace_child :: "json \<Rightarrow> json \<Rightarrow> json \<Rightarrow> json" where
  "replace_child (JObj kvs) (JStr k) v = JObj (AList.update k v kvs)"
| "replace_child (JList xs) k v =
     (case index_of k of
        Some i \<Rightarrow> JList (xs[nat (if i < 0 then int (length xs) + i else i) := v])
      | None \<Rightarrow> JList xs)"
| "replace_child c k v = c"

text \<open>\<open>for x in c\<close>: the keys of a dictionary, the elements of a list, the characters of a string.\<close>

fun py_iter :: "json \<Rightarrow> error + json list" where
  "py_iter (JObj kvs) = Inr (map (\<lambda>kv. JStr (fst kv)) kvs)"
| "py_iter (JList xs) = Inr xs"
| "py_iter (JStr s) = Inr (map (\<lambda>c. JStr [c]) s)"
| "py_iter _ = Inl TypeError"

section \<open>Strings\<close>

text \<open>\<open>s.split(sep)\<close> (no limit) and \<open>s.split(sep, m)\<close> (at most \<open>m\<close> splits).\<close>

fun str_split :: "char \<Rightarrow> nat option \<Rightarrow> string \<Rightarrow> string list" where
  "str_split sep m [] = [[]]"
| "str_split sep m (c # cs) =
     (if c = sep \<and> m \<noteq> Some 0 then [] # str_split sep (map_option (\<lambda>k. k - 1) m) cs
      else (case str_split sep m cs of t # ts \<Rightarrow> (c # t) # ts | [] \<Rightarrow> [[c]]))"

definition newline :: char where
  "newline = CHR 0x0A"

text \<open>\<open>sep.join(ts)\<close>, the inverse the custom identifier format relies on.\<close>

fun str_join :: "char \<Rightarrow> string list \<Rightarrow> string" where
  "str_join sep [] = []"
| "str_join sep [t] = t"
| "str_join sep (t # u # ts) = t @ sep # str_join sep (u # ts)"

text \<open>
  \<open>int(s)\<close> on a string, base 10: surrounding whitespace is skipped, one sign is
  allowed, the digits may be grouped by single underscores. \<open>None\<close> stands for the
  \<open>ValueError\<close> of an unparsable string. The whitespace \<open>int\<close> skips is the ASCII
  whitespace (tab to carriage return, and the space) and, of the other characters
  up to 255, the next-line and the no-break space; the separators 28 to 31, which
  \<open>str.strip\<close> removes, are not skipped. The interpreter's configurable bound on
  the number of digits of a literal (4300 by default in recent versions) is left out.
\<close>

definition int_space :: "char \<Rightarrow> bool" where
  "int_space c = ((of_char c :: nat) \<in> {9, 10, 11, 12, 13, 32, 133, 160})"

definition int_strip :: "string \<Rightarrow> string" where
  "int_strip s = rev (dropWhile int_space (rev (dropWhile int_space s)))"

definition digit_val :: "char \<Rightarrow> nat option" where
  "digit_val c = (let n = (of_char c :: nat) in if 48 \<le> n \<and> n \<le> 57 then Some (n - 48) else None)"

fun digits_acc :: "nat \<Rightarrow> bool \<Rightarrow> string \<Rightarrow> nat option" where
  "digits_acc acc prev [] = (if prev then Some acc else None)"
| "digits_acc acc prev (c # cs) =
     (if c = CHR ''_'' then (if prev \<and> cs \<noteq> [] then digits_acc acc False cs else None)
      else (case digit_val c of
              None \<Rightarrow> None
            | Some d \<Rightarrow> digits_acc (10 * acc + d) True cs))"

definition py_int :: "string \<Rightarrow> int option" where
  "py_int s =
     (case int_strip s of
        [] \<Rightarrow> None
      | c # cs \<Rightarrow>
          if c = CHR ''-'' then map_option (\<lambda>n. - int n) (digits_acc 0 False cs)
          else if c = CHR ''+'' then map_option int (digits_acc 0 False cs)
          else map_option int (digits_acc 0 False (c # cs)))"

section \<open>The models module\<close>

text \<open>
  The module \<open>flask_discord_interactions.models\<close> is not among the sources. Its two
  enumerations are parameters of the model: only the members the context module
  names occur, and nothing is assumed about their values.
\<close>

record CommandOptionType =
  SUB_COMMAND :: int
  SUB_COMMAND_GROUP :: int
  USER :: int
  CHANNEL :: int
  ROLE :: int

record ApplicationCommandType =
  CHAT_INPUT :: int
  USER :: int
  MESSAGE :: int

text \<open>
  Modelled from the spec: the entity classes \<open>Member\<close>, \<open>Channel\<close>, \<open>Role\<close> and
  \<open>Message\<close> and their constructor \<open>from_dict\<close> are missing from the sources. The
  spec makes an entity a value parsed structurally from a mapping of string keys,
  where extra keys do no harm and a missing key reads as null; \<open>parse\<close> is a pure
  function. An entity is therefore its class and the mapping it was parsed from,
  and \<open>attr\<close> reads a field. The spec defines \<open>parse\<close> on mappings only: on any other
  value the model raises.
\<close>

datatype kind = Member | Channel | Role | Message

datatype entity = Entity kind "(string \<times> json) list"

fun from_dict :: "kind \<Rightarrow> json \<Rightarrow> error + entity" where
  "from_dict k (JObj kvs) = Inr (Entity k kvs)"
| "from_dict k _ = Inl AttributeError"

fun attr :: "entity \<Rightarrow> string \<Rightarrow> json" where
  "attr (Entity k kvs) name = (case map_of kvs name of Some v \<Rightarrow> v | None \<Rightarrow> JNull)"

fun kind_of :: "entity \<Rightarrow> kind" where
  "kind_of (Entity k kvs) = k"

text \<open>A value handed to a command: a raw payload value or a parsed entity.\<close>

datatype pyval = Raw json | Ent entity

text \<open>
  A dictionary built by the module itself (\<open>self.members\<close>, \<open>kwargs\<close>), keyed by
  payload values. \<open>dict_lookup\<close> is \<open>d[k]\<close> and \<open>dict_store\<close> is \<open>d[k] = v\<close>;
  \<open>dict_update\<close> is \<open>d.update(e)\<close>.
\<close>

definition dict_lookup :: "(json \<times> 'a) list \<Rightarrow> json \<Rightarrow> error + 'a" where
  "dict_lookup d k =
     (if unhashable k then Inl TypeError
      else case map_of d k of Some v \<Rightarrow> Inr v | None \<Rightarrow> Inl KeyError)"

definition dict_store :: "(json \<times> 'a) list \<Rightarrow> json \<Rightarrow> 'a \<Rightarrow> error + (json \<times> 'a) list" where
  "dict_store d k v = (if unhashable k then Inl TypeError else Inr (AList.update k v d))"

definition dict_update :: "(json \<times> 'a) list \<Rightarrow> (json \<times> 'a) list \<Rightarrow> (json \<times> 'a) list" where
  "dict_update d e = fold (\<lambda>kv. AList.update (fst kv) (snd kv)) e d"

section \<open>The context\<close>

text \<open>
  The application object: its configuration and its command registry (command name
  to command identifier). The three configuration keys are the ones \<open>freeze\<close> copies.
  The reduced application object that \<open>freeze\<close> builds is a namespace with the
  attribute \<open>config\<close> only: it has no registry, which is \<open>None\<close> here.
\<close>

record config =
  DISCORD_BASE_URL :: string
  DISCORD_CLIENT_ID :: string
  DONT_REGISTER_WITH_DISCORD :: bool

record app =
  config :: config
  discord_commands :: "(string \<times> json) list option"

type_synonym headers = "(string \<times> string) list"

text \<open>
  The fields of the dataclass, with the attributes the methods add
  (\<open>messages\<close>, \<open>frozen_auth_headers\<close>). A field the class initialises to \<open>None\<close> and a
  method fills in later is an option. The \<open>discord\<close> object is represented by its
  method \<open>auth_headers\<close>. The attribute \<open>data\<close> refers to the payload itself, whose
  \<open>resolved\<close> sub-object is the very object the field \<open>resolved\<close> refers to: the
  model keeps that one copy.
\<close>

record Context =
  author :: entity
  id' :: json
  type :: json
  token :: json
  channel_id :: json
  guild_id :: json
  options :: json
  values' :: json
  resolved :: json
  command_name :: json
  command_id :: json
  members :: "(json \<times> entity) list option"
  channels :: "(json \<times> entity) list option"
  roles :: "(json \<times> entity) list option"
  messages :: "(json \<times> entity) list option"
  app :: "app option"
  discord :: "(app option \<Rightarrow> headers) option"
  custom_id :: json
  primary_id :: "string option"
  handler_state :: "string list option"
  target_id :: json
  target :: "entity option"
  frozen_auth_headers :: "headers option"

subsection \<open>Parsing\<close>

definition parse_custom_id :: "Context \<Rightarrow> error + Context" where
  "parse_custom_id ctx =
     (case custom_id ctx of
        JStr s \<Rightarrow>
          ebind (seq_index (str_split newline (Some 1) s) 0) (\<lambda>p.
            Inr (ctx\<lparr>primary_id := Some p,
                      handler_state := Some (str_split newline None s)\<rparr>))
      | _ \<Rightarrow> Inl AttributeError)"

text \<open>
  The loop of \<open>parse_resolved\<close> over the member identifiers. The assignment
  \<open>member_info["user"] = ...\<close> mutates the member's dictionary inside
  \<open>self.resolved\<close>, so the loop threads \<open>resolved\<close> along with \<open>self.members\<close>. The
  payload is a tree, and the only objects written to are the members'
  dictionaries, each reachable by one path: the value read back is the value written.
\<close>

fun members_loop ::
  "json list \<Rightarrow> json \<Rightarrow> (json \<times> entity) list \<Rightarrow> error + (json \<times> (json \<times> entity) list)" where
  "members_loop [] rsv ms = Inr (rsv, ms)"
| "members_loop (i # ids) rsv ms =
     ebind (subscript rsv (JStr ''members'')) (\<lambda>mtab.
     ebind (subscript mtab i) (\<lambda>member_info.
     ebind (subscript rsv (JStr ''users'')) (\<lambda>utab.
     ebind (subscript utab i) (\<lambda>user.
     ebind (setitem member_info ''user'' user) (\<lambda>member_info'.
     ebind (from_dict Member member_info') (\<lambda>m.
     ebind (dict_store ms i m) (\<lambda>ms'.
       members_loop ids
         (replace_child rsv (JStr ''members'') (replace_child mtab i member_info')) ms')))))))"

text \<open>The dictionary comprehensions \<open>{id: K.from_dict(data) for id, data in d.items()}\<close>.\<close>

fun entity_table :: "kind \<Rightarrow> (string \<times> json) list \<Rightarrow> (json \<times> entity) list \<Rightarrow> error + (json \<times> entity) list" where
  "entity_table k [] acc = Inr acc"
| "entity_table k (kv # kvs) acc =
     ebind (from_dict k (snd kv)) (\<lambda>e. entity_table k kvs (AList.update (JStr (fst kv)) e acc))"

definition parse_table :: "kind \<Rightarrow> json \<Rightarrow> string \<Rightarrow> error + (json \<times> entity) list" where
  "parse_table k rsv name =
     ebind (dict_get rsv name (JObj [])) (\<lambda>d.
     ebind (dict_items d) (\<lambda>kvs. entity_table k kvs []))"

definition parse_resolved :: "Context \<Rightarrow> error + Context" where
  "parse_resolved ctx =
     ebind (dict_get (resolved ctx) ''members'' (JObj [])) (\<lambda>mtab.
     ebind (py_iter mtab) (\<lambda>ids.
     ebind (members_loop ids (resolved ctx) []) (\<lambda>(rsv, ms).
     ebind (parse_table Channel rsv ''channels'') (\<lambda>cs.
     ebind (parse_table Role rsv ''roles'') (\<lambda>rs.
     ebind (parse_table Message rsv ''messages'') (\<lambda>gs.
       Inr (ctx\<lparr>resolved := rsv, members := Some ms, channels := Some cs,
                 roles := Some rs, messages := Some gs\<rparr>)))))))"

text \<open>\<open>self.members[self.target_id]\<close>: a table that was never built is \<open>None\<close>.\<close>

definition table_lookup :: "(json \<times> entity) list option \<Rightarrow> json \<Rightarrow> error + entity" where
  "table_lookup t k = (case t of None \<Rightarrow> Inl TypeError | Some d \<Rightarrow> dict_lookup d k)"

definition parse_target :: "ApplicationCommandType \<Rightarrow> Context \<Rightarrow> error + Context" where
  "parse_target ACT ctx =
     (if py_eq_int (type ctx) (ApplicationCommandType.USER ACT) then
        ebind (table_lookup (members ctx) (target_id ctx)) (\<lambda>t. Inr (ctx\<lparr>target := Some t\<rparr>))
      else if py_eq_int (type ctx) (MESSAGE ACT) then
        (case messages ctx of
           None \<Rightarrow> Inl AttributeError
         | Some d \<Rightarrow> ebind (dict_lookup d (target_id ctx)) (\<lambda>t. Inr (ctx\<lparr>target := Some t\<rparr>)))
      else Inr (ctx\<lparr>target := None\<rparr>))"

text \<open>
  \<open>from_data\<close>: a payload of \<open>None\<close> is the empty dictionary. \<open>construct\<close> is the call
  \<open>cls(...)\<close>, whose keyword arguments are evaluated in the order written; then the
  three parsers run.
\<close>

definition construct ::
  "ApplicationCommandType \<Rightarrow> (app option \<Rightarrow> headers) option \<Rightarrow> app option \<Rightarrow> json \<Rightarrow> error + Context" where
  "construct ACT dis ap data =
      ebind (dict_get data ''member'' (JObj [])) (\<lambda>mem.
      ebind (from_dict Member mem) (\<lambda>au.
      ebind (dict_get data ''id'' JNull) (\<lambda>ident.
      ebind (dict_get data ''data'' (JObj [])) (\<lambda>d.
      ebind (dict_get d ''type'' JNull) (\<lambda>ty.
      ebind (dict_get data ''token'' JNull) (\<lambda>tok.
      ebind (dict_get data ''channel_id'' JNull) (\<lambda>chan.
      ebind (dict_get data ''guild_id'' JNull) (\<lambda>gld.
      ebind (dict_get d ''options'' JNull) (\<lambda>opts.
      ebind (dict_get d ''values'' (JList [])) (\<lambda>vals.
      ebind (dict_get d ''resolved'' (JObj [])) (\<lambda>rsv.
      ebind (dict_get d ''name'' JNull) (\<lambda>cname.
      ebind (dict_get d ''id'' JNull) (\<lambda>cid.
      ebind (dict_get d ''custom_id'' JNull) (\<lambda>cust.
      ebind (dict_get d ''target_id'' JNull) (\<lambda>tid.
        Inr \<lparr>author = au, id' = ident,
             type = py_or ty (JInt (CHAT_INPUT ACT)),
             token = tok, channel_id = chan, guild_id = gld,
             options = opts, values' = vals, resolved = rsv,
             command_name = cname, command_id = cid,
             members = None, channels = None, roles = None, messages = None,
             app = ap, discord = dis,
             custom_id = py_or cust (JStr []),
             primary_id = None, handler_state = None,
             target_id = tid, target = None, frozen_auth_headers = None\<rparr>)))))))))))))))"

definition from_data ::
  "ApplicationCommandType \<Rightarrow> (app option \<Rightarrow> headers) option \<Rightarrow> app option \<Rightarrow> json \<Rightarrow> error + Context" where
  "from_data ACT dis ap data =
     ebind (construct ACT dis ap (if data = JNull then JObj [] else data)) (\<lambda>result.
     ebind (parse_custom_id result) (\<lambda>c1.
     ebind (parse_resolved c1) (\<lambda>c2.
       parse_target ACT c2)))"

subsection \<open>Arguments of a command\<close>

text \<open>The positional and the keyword arguments: \<open>args, kwargs\<close>.\<close>

type_synonym arguments = "pyval list \<times> (json \<times> pyval) list"

text \<open>
  The branches of the loop in \<open>create_args_recursive\<close> for one leaf option. The
  branch for a user option writes to the member's dictionary inside \<open>resolved\<close>, so
  it returns \<open>resolved\<close> as it stands afterwards, also when a later step raises.
\<close>

definition user_option :: "json \<Rightarrow> json \<Rightarrow> (json \<times> pyval) list \<Rightarrow> json \<times> (error + (json \<times> pyval) list)" where
  "user_option option rsv kwargs =
     (case ebind (subscript rsv (JStr ''members'')) (\<lambda>mtab.
           ebind (subscript option (JStr ''value'')) (\<lambda>v.
           ebind (subscript mtab v) (\<lambda>member_data.
           ebind (subscript rsv (JStr ''users'')) (\<lambda>utab.
           ebind (subscript utab v) (\<lambda>user.
           ebind (setitem member_data ''user'' user) (\<lambda>member_data'.
             Inr (replace_child rsv (JStr ''members'') (replace_child mtab v member_data'),
                  member_data'))))))) of
        Inl e \<Rightarrow> (rsv, Inl e)
      | Inr (rsv', member_data') \<Rightarrow>
          (rsv', ebind (from_dict Member member_data') (\<lambda>m.
                 ebind (subscript option (JStr ''name'')) (\<lambda>name.
                   dict_store kwargs name (Ent m)))))"

definition entity_option :: "kind \<Rightarrow> string \<Rightarrow> json \<Rightarrow> json \<Rightarrow> (json \<times> pyval) list \<Rightarrow> error + (json \<times> pyval) list" where
  "entity_option k tab option rsv kwargs =
     ebind (subscript rsv (JStr tab)) (\<lambda>t.
     ebind (subscript option (JStr ''value'')) (\<lambda>v.
     ebind (subscript t v) (\<lambda>d.
     ebind (from_dict k d) (\<lambda>e.
     ebind (subscript option (JStr ''name'')) (\<lambda>name.
       dict_store kwargs name (Ent e))))))"

definition raw_option :: "json \<Rightarrow> (json \<times> pyval) list \<Rightarrow> error + (json \<times> pyval) list" where
  "raw_option option kwargs =
     ebind (subscript option (JStr ''value'')) (\<lambda>v.
     ebind (subscript option (JStr ''name'')) (\<lambda>name.
       dict_store kwargs name (Raw v)))"

text \<open>
  The recursion descends into the \<open>options\<close> of a subcommand, a strictly smaller
  value. A truthy \<open>options\<close> that is not a list raises \<open>TypeError\<close>: an integer is not
  iterable, and the elements of a string or the keys of a dictionary are strings,
  on which \<open>option["type"]\<close> raises.
\<close>

lemma size_map_of: "map_of kvs k = Some v \<Longrightarrow> size v < size (JObj kvs)"
  by (induction kvs) (auto split: if_splits)

lemma size_options:
  assumes "dict_get data ''options'' JNull = Inr (JList os)" and "x \<in> set os"
  shows "size x < size data"
proof (cases data)
  case (JObj kvs)
  with assms(1) have "map_of kvs ''options'' = Some (JList os)"
    by (auto split: option.splits)
  then have "size (JList os) < size data"
    unfolding JObj by (rule size_map_of)
  moreover have "size x < size (JList os)"
    using assms(2) by (induction os) auto
  ultimately show ?thesis by simp
qed (use assms(1) in simp_all)

function create_args_recursive :: "CommandOptionType \<Rightarrow> json \<Rightarrow> json \<Rightarrow> json \<times> (error + arguments)" where
  "create_args_recursive COT data rsv =
     (case dict_get data ''options'' JNull of
        Inl e \<Rightarrow> (rsv, Inl e)
      | Inr opts \<Rightarrow>
          if \<not> truthy opts then (rsv, Inr ([], []))
          else (case opts of
             JList os \<Rightarrow>
               fold (\<lambda>option st.
                 case snd st of
                   Inl e \<Rightarrow> st
                 | Inr (args, kwargs) \<Rightarrow>
                    (case subscript option (JStr ''type'') of
                       Inl e \<Rightarrow> (fst st, Inl e)
                     | Inr ty \<Rightarrow>
                        if py_eq_int ty (SUB_COMMAND COT) \<or> py_eq_int ty (SUB_COMMAND_GROUP COT) then
                          (case subscript option (JStr ''name'') of
                             Inl e \<Rightarrow> (fst st, Inl e)
                           | Inr name \<Rightarrow>
                              (case create_args_recursive COT option (fst st) of
                                 (rsv', Inl e) \<Rightarrow> (rsv', Inl e)
                               | (rsv', Inr (sub_args, sub_kwargs)) \<Rightarrow>
                                   (rsv', Inr (args @ [Raw name] @ sub_args, dict_update kwargs sub_kwargs))))
                        else if py_eq_int ty (CommandOptionType.USER COT) then
                          (case user_option option (fst st) kwargs of
                             (rsv', r) \<Rightarrow> (rsv', ebind r (\<lambda>kw. Inr (args, kw))))
                        else if py_eq_int ty (CHANNEL COT) then
                          (fst st, ebind (entity_option Channel ''channels'' option (fst st) kwargs) (\<lambda>kw. Inr (args, kw)))
                        else if py_eq_int ty (ROLE COT) then
                          (fst st, ebind (entity_option Role ''roles'' option (fst st) kwargs) (\<lambda>kw. Inr (args, kw)))
                        else
                          (fst st, ebind (raw_option option kwargs) (\<lambda>kw. Inr (args, kw)))))
                 os (rsv, Inr ([], []))
           | _ \<Rightarrow> (rsv, Inl TypeError)))"

  by pat_completeness auto
termination
  by (relation "measure (\<lambda>(COT, data, rsv). size data)") (auto intro: size_options)


text \<open>The body of the loop, by name.\<close>

definition option_step ::
  "CommandOptionType \<Rightarrow> json \<Rightarrow> json \<times> (error + arguments) \<Rightarrow> json \<times> (error + arguments)" where
  "option_step COT option st =
     (case snd st of
        Inl e \<Rightarrow> st
      | Inr (args, kwargs) \<Rightarrow>
          (case subscript option (JStr ''type'') of
             Inl e \<Rightarrow> (fst st, Inl e)
           | Inr ty \<Rightarrow>
               if py_eq_int ty (SUB_COMMAND COT) \<or> py_eq_int ty (SUB_COMMAND_GROUP COT) then
                 (case subscript option (JStr ''name'') of
                    Inl e \<Rightarrow> (fst st, Inl e)
                  | Inr name \<Rightarrow>
                      (case create_args_recursive COT option (fst st) of
                         (rsv', Inl e) \<Rightarrow> (rsv', Inl e)
                       | (rsv', Inr (sub_args, sub_kwargs)) \<Rightarrow>
                           (rsv', Inr (args @ [Raw name] @ sub_args, dict_update kwargs sub_kwargs))))
               else if py_eq_int ty (CommandOptionType.USER COT) then
                 (case user_option option (fst st) kwargs of
                    (rsv', r) \<Rightarrow> (rsv', ebind r (\<lambda>kw. Inr (args, kw))))
               else if py_eq_int ty (CHANNEL COT) then
                 (fst st, ebind (entity_option Channel ''channels'' option (fst st) kwargs)
                            (\<lambda>kw. Inr (args, kw)))
               else if py_eq_int ty (ROLE COT) then
                 (fst st, ebind (entity_option Role ''roles'' option (fst st) kwargs)
                            (\<lambda>kw. Inr (args, kw)))
               else
                 (fst st, ebind (raw_option option kwargs) (\<lambda>kw. Inr (args, kw)))))"

definition create_args_chat_input :: "CommandOptionType \<Rightarrow> Context \<Rightarrow> Context \<times> (error + arguments)" where
  "create_args_chat_input COT ctx =
     (case create_args_recursive COT (JObj [(''options'', options ctx)]) (resolved ctx) of
        (rsv', r) \<Rightarrow> (ctx\<lparr>resolved := rsv'\<rparr>, r))"

definition target_val :: "Context \<Rightarrow> pyval" where
  "target_val ctx = (case target ctx of None \<Rightarrow> Raw JNull | Some e \<Rightarrow> Ent e)"

text \<open>\<open>create_args\<close> falls off its end for any other type and returns \<open>None\<close>.\<close>

definition create_args ::
  "ApplicationCommandType \<Rightarrow> CommandOptionType \<Rightarrow> Context \<Rightarrow> Context \<times> (error + arguments option)" where
  "create_args ACT COT ctx =
     (if py_eq_int (type ctx) (CHAT_INPUT ACT) then
        (case create_args_chat_input COT ctx of
           (ctx', r) \<Rightarrow> (ctx', ebind r (\<lambda>a. Inr (Some a))))
      else if py_eq_int (type ctx) (ApplicationCommandType.USER ACT) then
        (ctx, Inr (Some ([target_val ctx], [])))
      else if py_eq_int (type ctx) (MESSAGE ACT) then
        (ctx, Inr (Some ([target_val ctx], [])))
      else (ctx, Inr None))"

subsection \<open>Arguments of a custom identifier handler\<close>

text \<open>
  What \<open>parameter.annotation\<close> is compared with: \<open>int\<close>, \<open>bool\<close>, or anything else
  (another class, or no annotation).
\<close>

datatype annotation = AnnInt | AnnBool | AnnOther

text \<open>
  The loop over \<open>zip(count(), args, parameters)\<close>, assigning to \<open>args[i]\<close>. The
  iterator reads \<open>args[i]\<close> before the body assigns to it, so it yields the tokens.
\<close>

fun handler_loop :: "json list \<Rightarrow> (nat \<times> string \<times> annotation) list \<Rightarrow> error + json list" where
  "handler_loop args [] = Inr args"
| "handler_loop args ((i, argument, ann) # rest) =
     (case ann of
        AnnInt \<Rightarrow>
          (case py_int argument of
             None \<Rightarrow> Inl ValueError
           | Some n \<Rightarrow> handler_loop (args[i := JInt n]) rest)
      | AnnBool \<Rightarrow>
          if argument = ''True'' then handler_loop (args[i := JBool True]) rest
          else if argument = ''False'' then handler_loop (args[i := JBool False]) rest
          else if argument = ''None'' then handler_loop (args[i := JNull]) rest
          else Inl ValueError
      | AnnOther \<Rightarrow> handler_loop args rest)"

text \<open>
  The handler is given by the annotations of its parameters, the first of which
  receives the context. \<open>self.handler_state[1:]\<close> is a copy, so the context is not
  written to.
\<close>

definition create_handler_args :: "Context \<Rightarrow> annotation list \<Rightarrow> error + json list" where
  "create_handler_args ctx handler =
     (case handler_state ctx of
        None \<Rightarrow> Inl TypeError
      | Some hs \<Rightarrow>
          (let args = drop 1 hs
           in handler_loop (map JStr args)
                (zip [0 ..< length args] (zip args (drop 1 handler)))))"

section \<open>Outbound actions\<close>

text \<open>
  What the actions take from outside the module, as parameters: the methods of the
  missing classes \<open>Message\<close> and \<open>Permission\<close>, any of which may raise, and the
  conversion to text that an f-string applies to a payload value.
\<close>

record externals =
  from_return_value :: "json \<Rightarrow> error + json"
  dump_followup :: "json \<Rightarrow> error + json"
  dump_multipart :: "json \<Rightarrow> error + json"
  dump :: "json \<Rightarrow> error + json"
  format :: "json \<Rightarrow> string"

text \<open>
  Modelled from the spec: the methods of \<open>Message\<close> and \<open>Permission\<close>, which are not
  among the sources, as the conversions section 4.6 of the spec describes, which
  normalise or serialise every value they are given and return.
\<close>

definition returning ::
  "(json \<Rightarrow> json) \<Rightarrow> (json \<Rightarrow> json) \<Rightarrow> (json \<Rightarrow> json) \<Rightarrow> (json \<Rightarrow> json) \<Rightarrow> (json \<Rightarrow> string) \<Rightarrow> externals" where
  "returning normalise followup multipart serialise fmt =
     \<lparr>from_return_value = (\<lambda>j. Inr (normalise j)), dump_followup = (\<lambda>j. Inr (followup j)),
      dump_multipart = (\<lambda>j. Inr (multipart j)), dump = (\<lambda>j. Inr (serialise j)),
      format = fmt\<rparr>"

text \<open>
  A call of the HTTP client: the method, the URL, the \<open>headers\<close> argument when one is
  passed, and the body. The client is a function from the call to its response,
  or to the exception it raises itself.
\<close>

datatype body = NoBody | JsonBody json | Multipart json

record request =
  http_method :: string
  url :: string
  headers :: "headers option"
  payload :: body

record response =
  status_code :: nat
  json_body :: json

type_synonym client = "request \<Rightarrow> error + response"

text \<open>An action's outcome: the calls it issued, and its return value or exception.\<close>

type_synonym outcome = "request list \<times> (error + json)"

text \<open>\<open>Response.raise_for_status\<close> of the blocking client raises on a status from 400 to 599.\<close>

definition raise_for_status :: "response \<Rightarrow> error + unit" where
  "raise_for_status r =
     (if 400 \<le> status_code r \<and> status_code r < 600 then Inl HTTPError else Inr ())"

definition auth_headers :: "Context \<Rightarrow> error + headers" where
  "auth_headers ctx =
     (case discord ctx of
        Some f \<Rightarrow> Inr (f (app ctx))
      | None \<Rightarrow> (case frozen_auth_headers ctx of Some h \<Rightarrow> Inr h | None \<Rightarrow> Inl AttributeError))"

definition followup_url :: "externals \<Rightarrow> Context \<Rightarrow> json \<Rightarrow> error + string" where
  "followup_url X ctx message =
     (case app ctx of
        None \<Rightarrow> Inl AttributeError
      | Some a \<Rightarrow>
          (let u = DISCORD_BASE_URL (config a) @ ''/webhooks/'' @ DISCORD_CLIENT_ID (config a)
                     @ ''/'' @ format X (token ctx)
           in Inr (if message \<noteq> JNull then u @ ''/messages/'' @ format X message else u)))"

text \<open>\<open>not self.app or self.app.config["DONT_REGISTER_WITH_DISCORD"]\<close>.\<close>

definition offline :: "Context \<Rightarrow> bool" where
  "offline ctx = (case app ctx of None \<Rightarrow> True | Some a \<Rightarrow> DONT_REGISTER_WITH_DISCORD (config a))"

text \<open>
  \<open>get_command\<close>: the \<open>KeyError\<close> of the registry becomes \<open>ValueError\<close>; the
  \<open>AttributeError\<close> of an application object without a registry is not caught.
\<close>

definition get_command :: "Context \<Rightarrow> string option \<Rightarrow> error + json" where
  "get_command ctx name =
     (case name of
        None \<Rightarrow> Inr (command_id ctx)
      | Some n \<Rightarrow>
          (case app ctx of
             None \<Rightarrow> Inl AttributeError
           | Some a \<Rightarrow>
               (case discord_commands a of
                  None \<Rightarrow> Inl AttributeError
                | Some registry \<Rightarrow>
                    (case map_of registry n of
                       Some c \<Rightarrow> Inr c
                     | None \<Rightarrow> Inl ValueError))))"

definition permissions_url :: "externals \<Rightarrow> Context \<Rightarrow> string option \<Rightarrow> error + string" where
  "permissions_url X ctx command =
     (case app ctx of
        None \<Rightarrow> Inl AttributeError
      | Some a \<Rightarrow>
          ebind (get_command ctx command) (\<lambda>c.
            Inr (DISCORD_BASE_URL (config a) @ ''/applications/'' @ DISCORD_CLIENT_ID (config a)
                 @ ''/guilds/'' @ format X (guild_id ctx)
                 @ ''/commands/'' @ format X c @ ''/permissions'')))"

fun dump_all :: "externals \<Rightarrow> json list \<Rightarrow> error + json list" where
  "dump_all X [] = Inr []"
| "dump_all X (p # ps) = ebind (dump X p) (\<lambda>d. ebind (dump_all X ps) (\<lambda>ds. Inr (d # ds)))"

subsection \<open>The blocking context\<close>

definition edit :: "externals \<Rightarrow> client \<Rightarrow> Context \<Rightarrow> json \<Rightarrow> json \<Rightarrow> outcome" where
  "edit X http ctx response message =
     (case from_return_value X response of
        Inl e \<Rightarrow> ([], Inl e)
      | Inr msg \<Rightarrow>
          if offline ctx then ([], Inr JNull)
          else (case ebind (followup_url X ctx message) (\<lambda>u.
                     ebind (dump_followup X msg) (\<lambda>b.
                     ebind (auth_headers ctx) (\<lambda>h.
                       Inr \<lparr>http_method = ''PATCH'', url = u, headers = Some h, payload = JsonBody b\<rparr>))) of
                  Inl e \<Rightarrow> ([], Inl e)
                | Inr rq \<Rightarrow>
                    ([rq], ebind (http rq) (\<lambda>r. ebind (raise_for_status r) (\<lambda>_. Inr JNull)))))"

definition delete :: "externals \<Rightarrow> client \<Rightarrow> Context \<Rightarrow> json \<Rightarrow> outcome" where
  "delete X http ctx message =
     (if offline ctx then ([], Inr JNull)
      else (case ebind (followup_url X ctx message) (\<lambda>u.
                 ebind (auth_headers ctx) (\<lambda>h.
                   Inr \<lparr>http_method = ''DELETE'', url = u, headers = Some h, payload = NoBody\<rparr>)) of
              Inl e \<Rightarrow> ([], Inl e)
            | Inr rq \<Rightarrow>
                ([rq], ebind (http rq) (\<lambda>r. ebind (raise_for_status r) (\<lambda>_. Inr JNull)))))"

definition send :: "externals \<Rightarrow> client \<Rightarrow> Context \<Rightarrow> json \<Rightarrow> outcome" where
  "send X http ctx response =
     (if offline ctx then ([], Inr JNull)
      else (case ebind (from_return_value X response) (\<lambda>msg.
                 ebind (followup_url X ctx JNull) (\<lambda>u.
                 ebind (auth_headers ctx) (\<lambda>h.
                 ebind (dump_multipart X msg) (\<lambda>b.
                   Inr \<lparr>http_method = ''POST'', url = u, headers = Some h, payload = Multipart b\<rparr>)))) of
              Inl e \<Rightarrow> ([], Inl e)
            | Inr rq \<Rightarrow>
                ([rq], ebind (http rq) (\<lambda>r.
                       ebind (raise_for_status r) (\<lambda>_. subscript (json_body r) (JStr ''id''))))))"

definition overwrite_permissions ::
  "externals \<Rightarrow> client \<Rightarrow> Context \<Rightarrow> json list \<Rightarrow> string option \<Rightarrow> outcome" where
  "overwrite_permissions X http ctx permissions command =
     (case ebind (permissions_url X ctx command) (\<lambda>u.
           ebind (dump_all X permissions) (\<lambda>d. Inr (u, d))) of
        Inl e \<Rightarrow> ([], Inl e)
      | Inr (u, d) \<Rightarrow>
          (case app ctx of
             None \<Rightarrow> ([], Inl AttributeError)
           | Some a \<Rightarrow>
               if DONT_REGISTER_WITH_DISCORD (config a) then ([], Inr JNull)
               else (case auth_headers ctx of
                       Inl e \<Rightarrow> ([], Inl e)
                     | Inr h \<Rightarrow>
                         (let rq = \<lparr>http_method = ''PUT'', url = u, headers = Some h,
                                    payload = JsonBody (JObj [(''permissions'', JList d)])\<rparr>
                          in ([rq], ebind (http rq) (\<lambda>r.
                                    ebind (raise_for_status r) (\<lambda>_. Inr JNull)))))))"

text \<open>
  \<open>freeze\<close>: the reduced application object, the context built again from the payload
  \<open>self.data\<close> (here the argument \<open>data\<close>) with that object and no \<open>discord\<close>, and the
  snapshot of the authorization headers, taken last.
\<close>

definition freeze_app :: "app \<Rightarrow> app" where
  "freeze_app a = \<lparr>config = config a, discord_commands = None\<rparr>"

definition freeze :: "ApplicationCommandType \<Rightarrow> Context \<Rightarrow> json \<Rightarrow> error + Context" where
  "freeze ACT ctx data =
     (case app ctx of
        None \<Rightarrow> Inl AttributeError
      | Some a \<Rightarrow>
          ebind (from_data ACT None (Some (freeze_app a)) data) (\<lambda>new_context.
          ebind (auth_headers ctx) (\<lambda>h.
            Inr (new_context\<lparr>frozen_auth_headers := Some h\<rparr>))))"

subsection \<open>The suspending context\<close>

text \<open>
  The methods of \<open>AsyncContext\<close>, awaited to completion. The client is the session
  \<open>self.app.discord_client_session\<close>.
\<close>

definition async_edit :: "externals \<Rightarrow> client \<Rightarrow> Context \<Rightarrow> json \<Rightarrow> json \<Rightarrow> outcome" where
  "async_edit X session ctx response message =
     (case from_return_value X response of
        Inl e \<Rightarrow> ([], Inl e)
      | Inr msg \<Rightarrow>
          if offline ctx then ([], Inr JNull)
          else (case ebind (followup_url X ctx message) (\<lambda>u.
                     ebind (dump_followup X msg) (\<lambda>b.
                       Inr \<lparr>http_method = ''PATCH'', url = u, headers = None, payload = JsonBody b\<rparr>)) of
                  Inl e \<Rightarrow> ([], Inl e)
                | Inr rq \<Rightarrow> ([rq], ebind (session rq) (\<lambda>r. Inr JNull))))"

definition async_delete :: "externals \<Rightarrow> client \<Rightarrow> Context \<Rightarrow> json \<Rightarrow> outcome" where
  "async_delete X session ctx message =
     (if offline ctx then ([], Inr JNull)
      else (case ebind (followup_url X ctx message) (\<lambda>u.
                   Inr \<lparr>http_method = ''DELETE'', url = u, headers = None, payload = NoBody\<rparr>) of
              Inl e \<Rightarrow> ([], Inl e)
            | Inr rq \<Rightarrow> ([rq], ebind (session rq) (\<lambda>r. Inr JNull))))"

definition async_send :: "externals \<Rightarrow> client \<Rightarrow> Context \<Rightarrow> json \<Rightarrow> outcome" where
  "async_send X session ctx response =
     (case from_return_value X response of
        Inl e \<Rightarrow> ([], Inl e)
      | Inr msg \<Rightarrow>
          if offline ctx then ([], Inr JNull)
          else (case ebind (followup_url X ctx JNull) (\<lambda>u.
                     ebind (auth_headers ctx) (\<lambda>h.
                     ebind (dump_multipart X msg) (\<lambda>b.
                       Inr \<lparr>http_method = ''POST'', url = u, headers = Some h, payload = Multipart b\<rparr>))) of
                  Inl e \<Rightarrow> ([], Inl e)
                | Inr rq \<Rightarrow>
                    ([rq], ebind (session rq) (\<lambda>r. subscript (json_body r) (JStr ''id'')))))"

definition async_overwrite_permissions ::
  "externals \<Rightarrow> client \<Rightarrow> Context \<Rightarrow> json list \<Rightarrow> string option \<Rightarrow> outcome" where
  "async_overwrite_permissions X session ctx permissions command =
     (case ebind (permissions_url X ctx command) (\<lambda>u.
           ebind (dump_all X permissions) (\<lambda>d. Inr (u, d))) of
        Inl e \<Rightarrow> ([], Inl e)
      | Inr (u, d) \<Rightarrow>
          if offline ctx then ([], Inr JNull)
          else (case auth_headers ctx of
                  Inl e \<Rightarrow> ([], Inl e)
                | Inr h \<Rightarrow>
                    (let rq = \<lparr>http_method = ''PUT'', url = u, headers = Some h,
                               payload = JsonBody (JObj [(''permissions'', JList d)])\<rparr>
                     in ([rq], ebind (session rq) (\<lambda>r. Inr JNull)))))"

subsection \<open>Members and users of the resolved table\<close>

text \<open>
  \<open>member_ok rsv i e\<close>: the entity \<open>e\<close> is a member whose \<open>user\<close> is the entry of
  \<open>rsv["users"]\<close> at \<open>i\<close>. \<open>member_without_user rsv\<close>: the resolved object \<open>rsv\<close> is a
  dictionary whose \<open>members\<close> is a dictionary of dictionaries, whose \<open>users\<close> is
  absent or a dictionary, and some member identifier has no entry in \<open>users\<close>.
\<close>

definition member_ok :: "json \<Rightarrow> json \<Rightarrow> entity \<Rightarrow> bool" where
  "member_ok rsv i e \<longleftrightarrow>
     kind_of e = Member \<and>
     (\<exists>utab u. subscript rsv (JStr ''users'') = Inr utab \<and> subscript utab i = Inr u \<and>
        attr e ''user'' = u)"

fun is_dict :: "json \<Rightarrow> bool" where
  "is_dict (JObj kvs) = True"
| "is_dict _ = False"

definition member_without_user :: "json \<Rightarrow> bool" where
  "member_without_user rsv =
     (case rsv of
        JObj rkvs \<Rightarrow>
          (case map_of rkvs ''members'' of
             Some (JObj tab) \<Rightarrow>
               list_all (\<lambda>kv. is_dict (snd kv)) tab \<and>
               (case map_of rkvs ''users'' of
                  None \<Rightarrow> tab \<noteq> []
                | Some (JObj utab) \<Rightarrow> (\<exists>k \<in> fst ` set tab. map_of utab k = None)
                | Some _ \<Rightarrow> False)
           | _ \<Rightarrow> False)
      | _ \<Rightarrow> False)"

text \<open>
  \<open>merged rsv\<close>: every member dictionary of \<open>rsv\<close> that has a user in \<open>rsv["users"]\<close>
  holds that user under the key \<open>user\<close>, which is the state \<open>parse_resolved\<close> leaves
  the resolved object in.
\<close>

definition merged_at :: "json \<Rightarrow> json \<Rightarrow> bool" where
  "merged_at rsv i \<longleftrightarrow>
     (\<forall>mtab utab mkvs u.
        subscript rsv (JStr ''members'') = Inr mtab \<longrightarrow>
        subscript mtab i = Inr (JObj mkvs) \<longrightarrow>
        subscript rsv (JStr ''users'') = Inr utab \<longrightarrow>
        subscript utab i = Inr u \<longrightarrow>
        map_of mkvs ''user'' = Some u)"

definition merged :: "json \<Rightarrow> bool" where
  "merged rsv \<longleftrightarrow> (\<forall>i. merged_at rsv i)"

subsection \<open>Coercion, in the words of the spec\<close>






text \<open>
  The coercion of one state token against a declared parameter type as the spec
  words it: an integer parameter parses the token in base 10, a boolean parameter
  maps \<open>True\<close>, \<open>False\<close> and \<open>None\<close> to true, false and null, and both fail with
  the invalid-state error (\<open>ValueError\<close> in the code) on any other token; any other
  declared type passes the token through. \<open>coerce_all\<close> applies it position by
  position and keeps the tokens that have no parameter.
\<close>

fun coerce :: "annotation \<Rightarrow> string \<Rightarrow> error + json" where
  "coerce AnnInt t = (case py_int t of None \<Rightarrow> Inl ValueError | Some n \<Rightarrow> Inr (JInt n))"
| "coerce AnnBool t =
     (if t = ''True'' then Inr (JBool True)
      else if t = ''False'' then Inr (JBool False)
      else if t = ''None'' then Inr JNull
      else Inl ValueError)"
| "coerce AnnOther t = Inr (JStr t)"

fun coerce_all :: "annotation list \<Rightarrow> string list \<Rightarrow> error + json list" where
  "coerce_all anns [] = Inr []"
| "coerce_all [] (t # ts) = Inr (map JStr (t # ts))"
| "coerce_all (a # anns) (t # ts) =
     ebind (coerce a t) (\<lambda>v. ebind (coerce_all anns ts) (\<lambda>vs. Inr (v # vs)))"

text \<open>
  Modelled from the spec: the dispatcher, which is not among the sources, computes
  the handler's arguments with \<open>create_handler_args\<close> and invokes the handler on
  them only then. The flag tells whether the handler was invoked.
\<close>

definition run_handler :: "Context \<Rightarrow> annotation list \<Rightarrow> (json list \<Rightarrow> 'r) \<Rightarrow> bool \<times> (error + 'r)" where
  "run_handler ctx handler f =
     (case create_handler_args ctx handler of
        Inl e \<Rightarrow> (False, Inl e)
      | Inr args \<Rightarrow> (True, Inr (f args)))"

section \<open>Option trees\<close>

text \<open>
  The option tree of a payload as a tagged union: a subcommand group (flag set) or
  subcommand with its name and children, or a leaf with its type number, name and value.
\<close>

datatype opt = Sub bool string "opt list" | Leaf int string json

text \<open>The JSON object of a node, which is what \<open>create_args_recursive\<close> reads.\<close>

fun enc :: "CommandOptionType \<Rightarrow> opt \<Rightarrow> json" where
  "enc COT (Sub g n os) =
     JObj [(''type'', JInt (if g then SUB_COMMAND_GROUP COT else SUB_COMMAND COT)),
           (''name'', JStr n), (''options'', JList (map (enc COT) os))]"
| "enc COT (Leaf t n v) = JObj [(''type'', JInt t), (''name'', JStr n), (''value'', v)]"

text \<open>The names of the subcommand nodes, each before those of its children.\<close>

fun names :: "opt \<Rightarrow> string list" where
  "names (Sub g n os) = n # concat (map names os)"
| "names (Leaf t n v) = []"

text \<open>The leaves of a tree in document order: type number, name, value.\<close>

fun leaves :: "opt \<Rightarrow> (int \<times> string \<times> json) list" where
  "leaves (Sub g n os) = concat (map leaves os)"
| "leaves (Leaf t n v) = [(t, n, v)]"

text \<open>A leaf does not carry the type number of a subcommand or a subcommand group.\<close>

fun well_typed :: "CommandOptionType \<Rightarrow> opt \<Rightarrow> bool" where
  "well_typed COT (Sub g n os) = (\<forall>x \<in> set os. well_typed COT x)"
| "well_typed COT (Leaf t n v) = (t \<noteq> SUB_COMMAND COT \<and> t \<noteq> SUB_COMMAND_GROUP COT)"

fun is_leaf :: "opt \<Rightarrow> bool" where
  "is_leaf (Sub g n os) \<longleftrightarrow> False"
| "is_leaf (Leaf t n v) \<longleftrightarrow> True"

text \<open>The types of the last branch of the loop: neither user, channel nor role.\<close>

definition raw_type :: "CommandOptionType \<Rightarrow> int \<Rightarrow> bool" where
  "raw_type COT t \<longleftrightarrow>
     t \<noteq> CommandOptionType.USER COT \<and> t \<noteq> CHANNEL COT \<and> t \<noteq> ROLE COT"

text \<open>Trees whose leaves all take the last branch of the loop.\<close>

fun raw_only :: "CommandOptionType \<Rightarrow> opt \<Rightarrow> bool" where
  "raw_only COT (Sub g n os) \<longleftrightarrow> (\<forall>x \<in> set os. raw_only COT x)"
| "raw_only COT (Leaf t n v) \<longleftrightarrow>
     t \<noteq> SUB_COMMAND COT \<and> t \<noteq> SUB_COMMAND_GROUP COT \<and> raw_type COT t"

text \<open>The key of a leaf in the keyword dictionary.\<close>

definition leaf_key :: "int \<times> string \<times> json \<Rightarrow> json" where
  "leaf_key l = JStr (fst (snd l))"

text \<open>The type and value of the last leaf of a given name.\<close>

definition last_named :: "(int \<times> string \<times> json) list \<Rightarrow> string \<Rightarrow> (int \<times> json) option" where
  "last_named ls n = map_of (rev (map (\<lambda>l. (fst (snd l), (fst l, snd (snd l)))) ls)) n"

text \<open>
  A dictionary fits a list of leaves: its keys are the names of the leaves, and a name
  whose last leaf is of a raw type is bound to the value of that leaf.
\<close>

definition fits :: "CommandOptionType \<Rightarrow> (int \<times> string \<times> json) list \<Rightarrow> (json \<rightharpoonup> pyval) \<Rightarrow> bool" where
  "fits COT ls m \<longleftrightarrow>
     dom m = leaf_key ` set ls \<and>
     (\<forall>n t v. last_named ls n = Some (t, v) \<longrightarrow> raw_type COT t \<longrightarrow> m (JStr n) = Some (Raw v))"

text \<open>
  What a run of the loop adds to the arguments: the given names at the end of the
  positional list, and a dictionary that fits the given leaves, written over the
  keyword dictionary, whose keys stay distinct.
\<close>

definition grows ::
  "CommandOptionType \<Rightarrow> string list \<Rightarrow> (int \<times> string \<times> json) list \<Rightarrow> arguments \<Rightarrow> arguments \<Rightarrow> bool" where
  "grows COT ns ls a a' \<longleftrightarrow>
     fst a' = fst a @ map (\<lambda>n. Raw (JStr n)) ns \<and>
     distinct (map fst (snd a')) \<and>
     (\<exists>m. fits COT ls m \<and> map_of (snd a') = map_of (snd a) ++ m)"

section \<open>References into the resolved tables\<close>

text \<open>The identifiers of a table of the \<open>resolved\<close> section; a table that is absent has none.\<close>

definition table_ids :: "json \<Rightarrow> string \<Rightarrow> string list" where
  "table_ids rsv tab =
     (case rsv of
        JObj kvs \<Rightarrow> (case map_of kvs tab of Some (JObj d) \<Rightarrow> map fst d | _ \<Rightarrow> [])
      | _ \<Rightarrow> [])"

text \<open>The \<open>members\<close> table, when present, is a dictionary.\<close>

definition members_map :: "json \<Rightarrow> bool" where
  "members_map rsv =
     (case rsv of
        JObj kvs \<Rightarrow> (case map_of kvs ''members'' of None \<Rightarrow> True | Some t \<Rightarrow> is_dict t)
      | _ \<Rightarrow> False)"

text \<open>The table in which the loop looks up a leaf of a given type, in the order of its branches.\<close>

definition leaf_table :: "CommandOptionType \<Rightarrow> int \<Rightarrow> string option" where
  "leaf_table COT t =
     (if t = CommandOptionType.USER COT then Some ''members''
      else if t = CHANNEL COT then Some ''channels''
      else if t = ROLE COT then Some ''roles''
      else None)"

text \<open>The value of a user, channel or role leaf is an identifier: a string.\<close>

definition string_id :: "CommandOptionType \<Rightarrow> int \<times> string \<times> json \<Rightarrow> bool" where
  "string_id COT l =
     (case leaf_table COT (fst l) of
        None \<Rightarrow> True
      | Some tab \<Rightarrow> (case snd (snd l) of JStr s \<Rightarrow> True | _ \<Rightarrow> False))"

text \<open>A leaf whose identifier is not in its table.\<close>

definition dangling :: "CommandOptionType \<Rightarrow> json \<Rightarrow> int \<times> string \<times> json \<Rightarrow> bool" where
  "dangling COT rsv l =
     (case leaf_table COT (fst l) of
        None \<Rightarrow> False
      | Some tab \<Rightarrow> (case snd (snd l) of JStr s \<Rightarrow> s \<notin> set (table_ids rsv tab) | _ \<Rightarrow> False))"

text \<open>
  What \<open>parse_resolved\<close> has checked when it returns: a table is a dictionary of
  dictionaries, and every member has an entry in \<open>users\<close>.
\<close>

definition dict_table :: "(string \<times> json) list \<Rightarrow> string \<Rightarrow> bool" where
  "dict_table kvs tab \<longleftrightarrow>
     (\<forall>t. map_of kvs tab = Some t \<longrightarrow>
        (\<exists>d. t = JObj d \<and> (\<forall>k v. map_of d k = Some v \<longrightarrow> is_dict v)))"

definition covers :: "(string \<times> json) list \<Rightarrow> string \<Rightarrow> string \<Rightarrow> bool" where
  "covers kvs mt ut \<longleftrightarrow>
     (\<forall>d k v. map_of kvs mt = Some (JObj d) \<longrightarrow> map_of d k = Some v \<longrightarrow>
        (\<exists>u w. map_of kvs ut = Some (JObj u) \<and> map_of u k = Some w))"

definition sound :: "json \<Rightarrow> bool" where
  "sound rsv \<longleftrightarrow>
     (\<exists>kvs. rsv = JObj kvs \<and> dict_table kvs ''members'' \<and> dict_table kvs ''channels'' \<and>
        dict_table kvs ''roles'' \<and> covers kvs ''members'' ''users'')"

text \<open>A member that the loop of \<open>parse_resolved\<close> has been through, given the \<open>users\<close> table.\<close>

definition good :: "error + json \<Rightarrow> (string \<times> json) list \<Rightarrow> string \<Rightarrow> bool" where
  "good U tab k \<longleftrightarrow>
     (\<exists>mk. map_of tab k = Some (JObj mk)) \<and> (\<exists>u w. U = Inr (JObj u) \<and> map_of u k = Some w)"

text \<open>
  An entry of a table of the \<open>resolved\<close> section: the table holds the record \<open>kvs\<close>
  under the identifier \<open>s\<close>.
\<close>

definition resolved_at :: "json \<Rightarrow> string \<Rightarrow> string \<Rightarrow> (string \<times> json) list \<Rightarrow> bool" where
  "resolved_at rsv tab s kvs =
     (case rsv of
        JObj rkvs \<Rightarrow> (case map_of rkvs tab of Some (JObj d) \<Rightarrow> (s, JObj kvs) \<in> set d | _ \<Rightarrow> False)
      | _ \<Rightarrow> False)"

section \<open>A sample context\<close>

text \<open>The context that \<open>from_data\<close> builds from the empty payload \<open>{}\<close>.\<close>

definition Context0 :: Context where
  "Context0 =
     \<lparr>author = Entity Member [], id' = JNull, type = JInt 1, token = JNull,
      channel_id = JNull, guild_id = JNull, options = JNull, values' = JList [],
      resolved = JObj [], command_name = JNull, command_id = JNull,
      members = Some [], channels = Some [], roles = Some [], messages = Some [],
      app = None, discord = None, custom_id = JStr [], primary_id = Some [],
      handler_state = Some [[]], target_id = JNull, target = None,
      frozen_auth_headers = None\<rparr>"

text \<open>
  Sample collaborators: message and permission methods that return their argument,
  an application with one registered command, a context of that application with
  live authorization headers, and a client that answers every call with a given status.
\<close>

definition Externals0 :: externals where
  "Externals0 =
     \<lparr>from_return_value = Inr, dump_followup = Inr, dump_multipart = Inr, dump = Inr,
      format = (\<lambda>j. case j of JStr s \<Rightarrow> s | _ \<Rightarrow> ''None'')\<rparr>"

definition App0 :: "bool \<Rightarrow> app" where
  "App0 flag =
     \<lparr>config = \<lparr>DISCORD_BASE_URL = ''https://discord.com/api'', DISCORD_CLIENT_ID = ''7'',
                 DONT_REGISTER_WITH_DISCORD = flag\<rparr>,
      discord_commands = Some [(''ping'', JStr ''11'')]\<rparr>"

definition Context1 :: "bool \<Rightarrow> Context" where
  "Context1 flag =
     Context0\<lparr>token := JStr ''tok'', guild_id := JStr ''9'', command_id := JStr ''11'',
              app := Some (App0 flag),
              discord := Some (\<lambda>a. [(''Authorization'', ''Bot secret'')])\<rparr>"

text \<open>
  The frozen copy of that context for the empty payload, with the flag set: the
  application object has the configuration only.
\<close>

definition Context2 :: Context where
  "Context2 =
     Context0\<lparr>app := Some (freeze_app (App0 True)),
              frozen_auth_headers := Some [(''Authorization'', ''Bot secret'')]\<rparr>"

definition client0 :: "nat \<Rightarrow> client" where
  "client0 status = (\<lambda>rq. Inr \<lparr>status_code = status, json_body = JObj [(''id'', JStr ''1'')]\<rparr>)"

text \<open>The method, URL and body of a call, leaving its \<open>headers\<close> argument aside.\<close>

definition core :: "request \<Rightarrow> string \<times> string \<times> body" where
  "core rq = (http_method rq, url rq, payload rq)"

text \<open>The payload of the spec's scenario for a message command.\<close>

definition message_payload :: json where
  "message_payload =
     JObj [(''data'', JObj [(''type'', JInt 2), (''target_id'', JStr ''42''),
        (''resolved'', JObj [(''messages'',
           JObj [(''42'', JObj [(''id'', JStr ''42''), (''content'', JStr ''hi'')])])])])]"

text \<open>A payload with one resolved member and its user.\<close>

definition member_payload :: json where
  "member_payload =
     JObj [(''data'', JObj [(''resolved'', JObj
        [(''members'', JObj [(''1'', JObj [(''nick'', JStr ''n'')])]),
         (''users'', JObj [(''1'', JObj [(''id'', JStr ''1'')])])])])]"

text \<open>A payload of a chat input command with one user option.\<close>

definition user_payload :: json where
  "user_payload =
     JObj [(''data'', JObj
        [(''type'', JInt 1),
         (''options'', JList [JObj [(''type'', JInt 6), (''name'', JStr ''who''),
                                    (''value'', JStr ''1'')]]),
         (''resolved'', JObj
            [(''members'', JObj [(''1'', JObj [(''nick'', JStr ''n'')])]),
             (''users'', JObj [(''1'', JObj [(''id'', JStr ''1'')])])])])]"

text \<open>A chat input command whose channel option names a channel that is not resolved.\<close>

definition channel_payload :: json where
  "channel_payload =
     JObj [(''data'', JObj
        [(''type'', JInt 1),
         (''options'', JList [JObj [(''type'', JInt 7), (''name'', JStr ''where''),
                                    (''value'', JStr ''5'')]]),
         (''resolved'', JObj [(''channels'', JObj [(''4'', JObj [(''id'', JStr ''4'')])])])])]"

text \<open>A message command whose target is not among the resolved messages.\<close>

definition stale_payload :: json where
  "stale_payload =
     JObj [(''data'', JObj [(''type'', JInt 3), (''target_id'', JStr ''43''),
        (''resolved'', JObj [(''messages'',
           JObj [(''42'', JObj [(''id'', JStr ''42''), (''content'', JStr ''hi'')])])])])]"

text \<open>
  A user command whose target is the second of two resolved members, a message command
  whose target is the second of two resolved messages, and the contexts built from them.
\<close>

definition user_target_payload :: json where
  "user_target_payload =
     JObj [(''data'', JObj
        [(''type'', JInt 2), (''target_id'', JStr ''8''),
         (''resolved'', JObj
            [(''members'', JObj [(''7'', JObj [(''nick'', JStr ''a'')]),
                                (''8'', JObj [(''nick'', JStr ''b'')])]),
             (''users'', JObj [(''7'', JObj [(''id'', JStr ''7'')]),
                              (''8'', JObj [(''id'', JStr ''8'')])])])])]"

definition message_target_payload :: json where
  "message_target_payload =
     JObj [(''data'', JObj
        [(''type'', JInt 3), (''target_id'', JStr ''42''),
         (''resolved'', JObj
            [(''messages'', JObj [(''41'', JObj [(''content'', JStr ''no'')]),
                                 (''42'', JObj [(''content'', JStr ''hi'')])])])])]"

definition user_target_context :: Context where
  "user_target_context =
     Context0\<lparr>type := JInt 2, target_id := JStr ''8'',
       resolved := JObj
         [(''members'', JObj [(''7'', JObj [(''nick'', JStr ''a''), (''user'', JObj [(''id'', JStr ''7'')])]),
                             (''8'', JObj [(''nick'', JStr ''b''), (''user'', JObj [(''id'', JStr ''8'')])])]),
          (''users'', JObj [(''7'', JObj [(''id'', JStr ''7'')]),
                           (''8'', JObj [(''id'', JStr ''8'')])])],
       members := Some
         [(JStr ''7'', Entity Member [(''nick'', JStr ''a''), (''user'', JObj [(''id'', JStr ''7'')])]),
          (JStr ''8'', Entity Member [(''nick'', JStr ''b''), (''user'', JObj [(''id'', JStr ''8'')])])],
       target := Some (Entity Member [(''nick'', JStr ''b''), (''user'', JObj [(''id'', JStr ''8'')])])\<rparr>"

definition message_target_context :: Context where
  "message_target_context =
     Context0\<lparr>type := JInt 3, target_id := JStr ''42'',
       resolved := JObj
         [(''messages'', JObj [(''41'', JObj [(''content'', JStr ''no'')]),
                              (''42'', JObj [(''content'', JStr ''hi'')])])],
       messages := Some
         [(JStr ''41'', Entity Message [(''content'', JStr ''no'')]),
          (JStr ''42'', Entity Message [(''content'', JStr ''hi'')])],
       target := Some (Entity Message [(''content'', JStr ''hi'')])\<rparr>"

text \<open>A payload with a resolved member that has no resolved user, and nothing else.\<close>

definition orphan_payload :: json where
  "orphan_payload =
     JObj [(''data'', JObj [(''resolved'', JObj
        [(''members'', JObj [(''1'', JObj [(''nick'', JStr ''n'')])]), (''users'', JObj [])])])]"

section \<open>Basic facts\<close>

lemma str_split_not_Nil: "str_split sep m s \<noteq> []"
  by (induction s arbitrary: m) (auto split: list.splits)

lemma hd_str_split_None: "hd (str_split sep None s) = takeWhile (\<lambda>c. c \<noteq> sep) s"
  by (induction s) (auto split: list.splits simp: str_split_not_Nil)

lemma hd_str_split_Some: "hd (str_split sep (Some (Suc k)) s) = takeWhile (\<lambda>c. c \<noteq> sep) s"
  by (induction s) (auto split: list.splits simp: str_split_not_Nil)

lemma str_join_split: "str_join sep (str_split sep m s) = s"
proof (induction s arbitrary: m)
  case Nil
  show ?case by simp
next
  case (Cons c cs)
  show ?case
  proof (cases "c = sep \<and> m \<noteq> Some 0")
    case True
    obtain t ts where "str_split sep (map_option (\<lambda>k. k - 1) m) cs = t # ts"
      using str_split_not_Nil by (cases "str_split sep (map_option (\<lambda>k. k - 1) m) cs") auto
    with True Cons[of "map_option (\<lambda>k. k - 1) m"] show ?thesis by simp
  next
    case False
    obtain t ts where e: "str_split sep m cs = t # ts"
      using str_split_not_Nil by (cases "str_split sep m cs") auto
    from False e Cons[of m] show ?thesis by (cases ts) auto
  qed
qed

lemma str_split_no_sep: "t \<in> set (str_split sep None s) \<Longrightarrow> sep \<notin> set t"
  by (induction s arbitrary: t) (auto split: list.splits if_splits)

lemma str_split_id: "sep \<notin> set s \<Longrightarrow> str_split sep m s = [s]"
  by (induction s) auto

lemma seq_index_0: "xs \<noteq> [] \<Longrightarrow> seq_index xs 0 = Inr (hd xs)"
  by (cases xs) (auto simp: seq_index_def)



lemma ebind_Inr: "ebind m f = Inr y \<longleftrightarrow> (\<exists>x. m = Inr x \<and> f x = Inr y)"
  by (cases m) (auto simp: ebind_def)

lemma ebind_simps [simp]: "ebind (Inl e) f = Inl e" "ebind (Inr x) f = f x"
  by (simp_all add: ebind_def)

lemma parse_custom_id_str:
  "custom_id c = JStr s \<Longrightarrow>
     parse_custom_id c = Inr (c\<lparr>primary_id := Some (takeWhile (\<lambda>x. x \<noteq> newline) s),
                handler_state := Some (str_split newline None s)\<rparr>)"
  by (simp add: parse_custom_id_def seq_index_0 str_split_not_Nil
        hd_str_split_Some[of _ 0, simplified])

lemma parse_custom_id_Inr:
  assumes "parse_custom_id c = Inr c'"
  obtains s where "custom_id c = JStr s"
    and "c' = c\<lparr>primary_id := Some (takeWhile (\<lambda>x. x \<noteq> newline) s),
                handler_state := Some (str_split newline None s)\<rparr>"
proof (cases "custom_id c")
  case (JStr s)
  with assms parse_custom_id_str[OF JStr] that show ?thesis by simp
qed (use assms in \<open>simp_all add: parse_custom_id_def\<close>)

lemma parse_resolved_Inr:
  "parse_resolved c = Inr c' \<Longrightarrow>
     c' = c\<lparr>resolved := resolved c', members := members c', channels := channels c',
                 roles := roles c', messages := messages c'\<rparr>"
  by (auto simp: parse_resolved_def ebind_Inr)

lemma parse_target_Inr:
  "parse_target ACT c = Inr c' \<Longrightarrow> c' = c\<lparr>target := target c'\<rparr>"
  by (auto simp: parse_target_def ebind_Inr split: if_splits option.splits)

lemma construct_Inr:
  assumes "construct ACT dis ap data = Inr c"
  obtains d ty opts rsv cust tid where
           "dict_get data ''data'' (JObj []) = Inr d"
           "dict_get d ''type'' JNull = Inr ty"
           "dict_get d ''options'' JNull = Inr opts"
           "dict_get d ''resolved'' (JObj []) = Inr rsv"
           "dict_get d ''custom_id'' JNull = Inr cust"
           "dict_get d ''target_id'' JNull = Inr tid"
           "type c = py_or ty (JInt (CHAT_INPUT ACT))" "options c = opts"
           "resolved c = rsv" "custom_id c = py_or cust (JStr [])" "target_id c = tid"
           "app c = ap" "discord c = dis"
  using assms unfolding construct_def ebind_Inr by auto

lemma from_data_Inr:
  assumes "from_data ACT dis ap data = Inr ctx"
  obtains c0 c1 c2 where
    "construct ACT dis ap (if data = JNull then JObj [] else data) = Inr c0"
    "parse_custom_id c0 = Inr c1" "parse_resolved c1 = Inr c2" "parse_target ACT c2 = Inr ctx"
  using assms unfolding from_data_def ebind_Inr by auto

section \<open>The custom identifier\<close>

text \<open>
  C2. Decoding a custom identifier \<open>s\<close> sets the primary key to the part of \<open>s\<close>
  before the first newline, which is \<open>s\<close> itself when \<open>s\<close> has no newline, and keeps
  the whole split list as the handler state: its first element is the primary key,
  joining it with newlines gives \<open>s\<close> back, and no element contains a newline. A
  context built by \<open>from_data\<close> has been decoded in this way, and when the payload's
  \<open>custom_id\<close> is absent or empty the primary key is the empty string and the
  handler state is the one-element list of the empty string.
\<close>

theorem custom_id_decode:
  "(custom_id c = JStr s \<longrightarrow>
      parse_custom_id c =
        Inr (c\<lparr>primary_id := Some (takeWhile (\<lambda>x. x \<noteq> newline) s),
                 handler_state := Some (str_split newline None s)\<rparr>)
      \<and> (newline \<notin> set s \<longrightarrow> takeWhile (\<lambda>x. x \<noteq> newline) s = s)
      \<and> hd (str_split newline None s) = takeWhile (\<lambda>x. x \<noteq> newline) s
      \<and> str_join newline (str_split newline None s) = s
      \<and> (\<forall>t \<in> set (str_split newline None s). newline \<notin> set t))
   \<and> (from_data ACT dis ap data = Inr ctx \<longrightarrow>
        (\<exists>r. custom_id ctx = JStr r
           \<and> primary_id ctx = Some (takeWhile (\<lambda>x. x \<noteq> newline) r)
           \<and> handler_state ctx = Some (str_split newline None r)
           \<and> (\<forall>d cust. dict_get (if data = JNull then JObj [] else data) ''data'' (JObj []) = Inr d
                  \<longrightarrow> dict_get d ''custom_id'' JNull = Inr cust
                  \<longrightarrow> cust = JNull \<or> cust = JStr []
                  \<longrightarrow> r = [] \<and> primary_id ctx = Some [] \<and> handler_state ctx = Some [[]])))"
proof (intro conjI impI)
  assume "custom_id c = JStr s"
  then show "parse_custom_id c =
        Inr (c\<lparr>primary_id := Some (takeWhile (\<lambda>x. x \<noteq> newline) s),
                 handler_state := Some (str_split newline None s)\<rparr>)"
    by (rule parse_custom_id_str)
next
  assume "newline \<notin> set s"
  then show "takeWhile (\<lambda>x. x \<noteq> newline) s = s"
    by (auto simp: takeWhile_eq_all_conv)
next
  show "hd (str_split newline None s) = takeWhile (\<lambda>x. x \<noteq> newline) s"
    by (rule hd_str_split_None)
next
  show "str_join newline (str_split newline None s) = s"
    by (rule str_join_split)
next
  show "\<forall>t \<in> set (str_split newline None s). newline \<notin> set t"
    using str_split_no_sep by blast
next
  assume fd: "from_data ACT dis ap data = Inr ctx"
  from fd obtain c0 c1 c2 where
    c0: "construct ACT dis ap (if data = JNull then JObj [] else data) = Inr c0"
    and c1: "parse_custom_id c0 = Inr c1" and c2: "parse_resolved c1 = Inr c2"
    and c3: "parse_target ACT c2 = Inr ctx"
    by (rule from_data_Inr)
  from c1 obtain r where r: "custom_id c0 = JStr r"
    and c1_eq: "c1 = c0\<lparr>primary_id := Some (takeWhile (\<lambda>x. x \<noteq> newline) r),
                handler_state := Some (str_split newline None r)\<rparr>"
    by (rule parse_custom_id_Inr)
  have f2: "custom_id c2 = custom_id c1" "primary_id c2 = primary_id c1"
      "handler_state c2 = handler_state c1"
    by (subst parse_resolved_Inr[OF c2], simp)+
  have f3: "custom_id ctx = custom_id c2" "primary_id ctx = primary_id c2"
      "handler_state ctx = handler_state c2"
    by (subst parse_target_Inr[OF c3], simp)+
  have fields: "custom_id ctx = JStr r"
      "primary_id ctx = Some (takeWhile (\<lambda>x. x \<noteq> newline) r)"
      "handler_state ctx = Some (str_split newline None r)"
    using f2 f3 r by (simp_all add: c1_eq)
  have absent: "r = []"
    if "dict_get (if data = JNull then JObj [] else data) ''data'' (JObj []) = Inr d"
      and "dict_get d ''custom_id'' JNull = Inr cust" and "cust = JNull \<or> cust = JStr []"
    for d cust
  proof -
    from c0 obtain d' cust' where
      "dict_get (if data = JNull then JObj [] else data) ''data'' (JObj []) = Inr d'"
      "dict_get d' ''custom_id'' JNull = Inr cust'"
      "custom_id c0 = py_or cust' (JStr [])"
      by (rule construct_Inr)
    with that r show ?thesis by (auto simp: py_or_def)
  qed
  show "\<exists>r. custom_id ctx = JStr r
           \<and> primary_id ctx = Some (takeWhile (\<lambda>x. x \<noteq> newline) r)
           \<and> handler_state ctx = Some (str_split newline None r)
           \<and> (\<forall>d cust. dict_get (if data = JNull then JObj [] else data) ''data'' (JObj []) = Inr d
                  \<longrightarrow> dict_get d ''custom_id'' JNull = Inr cust
                  \<longrightarrow> cust = JNull \<or> cust = JStr []
                  \<longrightarrow> r = [] \<and> primary_id ctx = Some [] \<and> handler_state ctx = Some [[]])"
    using fields absent by (intro exI[of _ r]) auto
qed

theorem custom_id_decode_witness:
  "parse_custom_id (Context0\<lparr>custom_id := JStr ''key\<newline>A\<newline>B''\<rparr>) =
     Inr (Context0\<lparr>custom_id := JStr ''key\<newline>A\<newline>B'', primary_id := Some ''key'',
                   handler_state := Some [''key'', ''A'', ''B'']\<rparr>)
   \<and> from_data \<lparr>CHAT_INPUT = 1, USER = 2, MESSAGE = 3\<rparr> None None (JObj []) = Inr Context0
   \<and> primary_id Context0 = Some [] \<and> handler_state Context0 = Some [[]]"
proof -
  have fd: "from_data \<lparr>CHAT_INPUT = 1, USER = 2, MESSAGE = 3\<rparr> None None (JObj []) = Inr Context0"
    by (simp add: from_data_def construct_def Context0_def parse_custom_id_def parse_resolved_def
          parse_target_def py_or_def seq_index_def parse_table_def)
  show ?thesis
    using custom_id_decode[of "Context0\<lparr>custom_id := JStr ''key\<newline>A\<newline>B''\<rparr>"
        "''key\<newline>A\<newline>B''" "\<lparr>CHAT_INPUT = 1, USER = 2, MESSAGE = 3\<rparr>" None None "JObj []" Context0] fd
    by (simp add: newline_def Context0_def)
qed

lemma handler_loop_coerce_all:
  "handler_loop (pre @ map JStr ts)
     (zip [length pre ..< length pre + length ts] (zip ts anns)) =
   ebind (coerce_all anns ts) (\<lambda>vs. Inr (pre @ vs))"
proof (induction ts arbitrary: pre anns)
  case Nil
  show ?case by simp
next
  case (Cons t ts)
  show ?case
  proof (cases anns)
    case Nil
    then show ?thesis by simp
  next
    case (Cons a as)
    have upt: "[length pre ..< length pre + length (t # ts)] =
        length pre # [Suc (length pre) ..< Suc (length pre) + length ts]"
      by (subst upt_rec) simp
    have ih: "handler_loop (pre @ x # map JStr ts)
            (zip [Suc (length pre) ..< Suc (length pre) + length ts] (zip ts as)) =
          ebind (coerce_all as ts) (\<lambda>vs. Inr (pre @ x # vs))" for x
      using Cons.IH[of "pre @ [x]" as] by simp
    have upd: "(pre @ JStr t # map JStr ts)[length pre := x] = pre @ x # map JStr ts" for x
      by simp
    show ?thesis
    proof (cases a)
      case AnnInt
      show ?thesis
      proof (cases "py_int t")
        case None
        with AnnInt Cons show ?thesis unfolding upt by simp
      next
        case (Some k)
        have "handler_loop (pre @ map JStr (t # ts))
            (zip [length pre ..< length pre + length (t # ts)] (zip (t # ts) anns)) =
          handler_loop (pre @ JInt k # map JStr ts)
            (zip [Suc (length pre) ..< Suc (length pre) + length ts] (zip ts as))"
          unfolding upt using AnnInt Cons Some upd[of "JInt k"] by simp
        then show ?thesis
          unfolding ih using AnnInt Cons Some by (cases "coerce_all as ts") simp_all
      qed
    next
      case AnnBool
      have "handler_loop (pre @ map JStr (t # ts))
            (zip [length pre ..< length pre + length (t # ts)] (zip (t # ts) anns)) =
          (if t = ''True'' then handler_loop (pre @ JBool True # map JStr ts)
                (zip [Suc (length pre) ..< Suc (length pre) + length ts] (zip ts as))
           else if t = ''False'' then handler_loop (pre @ JBool False # map JStr ts)
                (zip [Suc (length pre) ..< Suc (length pre) + length ts] (zip ts as))
           else if t = ''None'' then handler_loop (pre @ JNull # map JStr ts)
                (zip [Suc (length pre) ..< Suc (length pre) + length ts] (zip ts as))
           else Inl ValueError)"
        unfolding upt using AnnBool Cons upd[of "JBool True"] upd[of "JBool False"] upd[of JNull]
        by simp
      then show ?thesis
        unfolding ih using AnnBool Cons by (cases "coerce_all as ts") simp_all
    next
      case AnnOther
      have "handler_loop (pre @ map JStr (t # ts))
            (zip [length pre ..< length pre + length (t # ts)] (zip (t # ts) anns)) =
          handler_loop (pre @ JStr t # map JStr ts)
            (zip [Suc (length pre) ..< Suc (length pre) + length ts] (zip ts as))"
        unfolding upt using AnnOther Cons by simp
      then show ?thesis
        unfolding ih using AnnOther Cons by (cases "coerce_all as ts") simp_all
    qed
  qed
qed

lemma create_handler_args_coerce_all:
  "handler_state ctx = Some hs \<Longrightarrow>
     create_handler_args ctx handler = coerce_all (drop 1 handler) (drop 1 hs)"
  using handler_loop_coerce_all[of "[]" "drop 1 hs" "drop 1 handler"]
  by (cases "coerce_all (drop 1 handler) (drop 1 hs)") (simp_all add: create_handler_args_def)

lemma coerce_Inl: "coerce a t = Inl e \<Longrightarrow> e = ValueError"
  by (cases a) (auto split: option.splits if_splits)

lemma coerce_all_Inr:
  "coerce_all anns ts = Inr out \<Longrightarrow>
     length out = length ts \<and>
     (\<forall>i. i < length ts \<longrightarrow> i < length anns \<longrightarrow> coerce (anns ! i) (ts ! i) = Inr (out ! i)) \<and>
     (\<forall>i. length anns \<le> i \<longrightarrow> i < length ts \<longrightarrow> out ! i = JStr (ts ! i))"
proof (induction anns ts arbitrary: out rule: coerce_all.induct)
  case (1 anns)
  then show ?case by simp
next
  case (2 t ts)
  then have "out = map JStr (t # ts)" by simp
  then show ?case by (simp del: list.map)
next
  case (3 a anns t ts)
  from "3.prems" obtain v vs where v: "coerce a t = Inr v" and vs: "coerce_all anns ts = Inr vs"
    and out: "out = v # vs"
    by (auto simp: ebind_Inr)
  from "3.IH"[OF vs] v out show ?case
    by (auto simp: nth_Cons split: nat.splits)
qed

lemma coerce_all_Inl:
  "coerce_all anns ts = Inl e \<Longrightarrow>
     e = ValueError \<and> (\<exists>i. i < length ts \<and> i < length anns \<and> coerce (anns ! i) (ts ! i) = Inl ValueError)"
proof (induction anns ts rule: coerce_all.induct)
  case (1 anns)
  then show ?case by simp
next
  case (2 t ts)
  then show ?case by simp
next
  case (3 a anns t ts)
  show ?case
  proof (cases "coerce a t")
    case (Inl e')
    with "3.prems" coerce_Inl[OF Inl] have "e = ValueError" "coerce ((a # anns) ! 0) ((t # ts) ! 0) = Inl ValueError"
      by simp_all
    then show ?thesis by (intro conjI exI[of _ 0]) simp_all
  next
    case (Inr v)
    with "3.prems" have "coerce_all anns ts = Inl e"
      by (cases "coerce_all anns ts") simp_all
    from "3.IH"[OF this] obtain i where "e = ValueError" "i < length ts" "i < length anns"
      "coerce (anns ! i) (ts ! i) = Inl ValueError" by blast
    then show ?thesis by (intro conjI exI[of _ "Suc i"]) simp_all
  qed
qed


lemma create_handler_args_cases:
  assumes "handler_state ctx = Some hs"
  shows "(\<exists>i. i < length (drop 1 hs) \<and> i < length (drop 1 handler) \<and>
              coerce (drop 1 handler ! i) (drop 1 hs ! i) = Inl ValueError) \<and>
          create_handler_args ctx handler = Inl ValueError
       \<or> (\<exists>out. create_handler_args ctx handler = Inr out \<and>
              length out = length (drop 1 hs) \<and>
              (\<forall>i. i < length (drop 1 hs) \<longrightarrow> i < length (drop 1 handler) \<longrightarrow>
                   coerce (drop 1 handler ! i) (drop 1 hs ! i) = Inr (out ! i)) \<and>
              (\<forall>i. length (drop 1 handler) \<le> i \<longrightarrow> i < length (drop 1 hs) \<longrightarrow>
                   out ! i = JStr (drop 1 hs ! i)))"
proof (cases "coerce_all (drop 1 handler) (drop 1 hs)")
  case (Inl e)
  from coerce_all_Inl[OF Inl] Inl show ?thesis
    unfolding create_handler_args_coerce_all[OF assms] by blast
next
  case (Inr out)
  from coerce_all_Inr[OF Inr] Inr show ?thesis
    unfolding create_handler_args_coerce_all[OF assms] by blast
qed

section \<open>Arguments of a custom identifier handler\<close>












lemma digits_acc_empty: "digits_acc 0 False [] = None"
  by simp













text \<open>
  C4, as stated, fails: a token beyond the declared parameters is not dropped. With
  one declared parameter after the context and the two tokens \<open>5\<close> and \<open>x\<close>, the
  returned list holds both, and the handler receives both.
\<close>

theorem extra_tokens_counterexample:
  "create_handler_args (Context0\<lparr>handler_state := Some [''key'', ''5'', ''x'']\<rparr>)
       [AnnOther, AnnInt] = Inr [JInt 5, JStr ''x'']
   \<and> run_handler (Context0\<lparr>handler_state := Some [''key'', ''5'', ''x'']\<rparr>)
       [AnnOther, AnnInt] (\<lambda>args. args) = (True, Inr [JInt 5, JStr ''x''])"
proof -
  have "create_handler_args (Context0\<lparr>handler_state := Some [''key'', ''5'', ''x'']\<rparr>)
       [AnnOther, AnnInt] = Inr [JInt 5, JStr ''x'']"
    by code_simp
  then show ?thesis
    by (simp add: run_handler_def)
qed

text \<open>
  C4, amended. Tokens beyond the declared parameter count are not coerced, but they
  stay in the returned list as the strings they are: the list always has one entry
  per state token. Fewer tokens than parameters is permitted: whenever every token
  that has a parameter coerces, the call returns, however many parameters are left
  without a token.
\<close>

theorem handler_args_length:
  assumes "handler_state ctx = Some hs"
  shows "(\<forall>out. create_handler_args ctx handler = Inr out \<longrightarrow>
            length out = length (drop 1 hs) \<and>
            (\<forall>i. length (drop 1 handler) \<le> i \<longrightarrow> i < length (drop 1 hs) \<longrightarrow>
                 out ! i = JStr (drop 1 hs ! i)))
       \<and> ((\<forall>i. i < length (drop 1 hs) \<longrightarrow> i < length (drop 1 handler) \<longrightarrow>
              coerce (drop 1 handler ! i) (drop 1 hs ! i) \<noteq> Inl ValueError) \<longrightarrow>
            (\<exists>out. create_handler_args ctx handler = Inr out))"
  using create_handler_args_cases[OF assms, of handler] by auto

theorem handler_args_length_witness:
  "create_handler_args (Context0\<lparr>handler_state := Some [''key'', ''5'']\<rparr>)
       [AnnOther, AnnInt, AnnBool, AnnOther] = Inr [JInt 5]
   \<and> length [JInt 5] = length (drop 1 [''key'', ''5''])
   \<and> (\<exists>out. create_handler_args (Context0\<lparr>handler_state := Some [''key'', ''5'', ''x'']\<rparr>)
       [AnnOther, AnnInt] = Inr out \<and> length out = 2 \<and> out ! 1 = JStr ''x'')"
proof -
  let ?c1 = "Context0\<lparr>handler_state := Some [''key'', ''5'']\<rparr>"
  let ?c2 = "Context0\<lparr>handler_state := Some [''key'', ''5'', ''x'']\<rparr>"
  have s1: "handler_state ?c1 = Some [''key'', ''5'']"
    by simp
  have s2: "handler_state ?c2 = Some [''key'', ''5'', ''x'']"
    by simp
  have r1: "create_handler_args ?c1 [AnnOther, AnnInt, AnnBool, AnnOther] = Inr [JInt 5]"
    by code_simp
  have r2: "create_handler_args ?c2 [AnnOther, AnnInt] = Inr [JInt 5, JStr ''x'']"
    by code_simp
  note th1 = conjunct1[OF handler_args_length[OF s1, of "[AnnOther, AnnInt, AnnBool, AnnOther]"]]
  from th1[rule_format, OF r1]
  have l1: "length [JInt 5] = length (drop 1 [''key'', ''5''])"
    by (rule conjunct1)
  note th2 = conjunct1[OF handler_args_length[OF s2, of "[AnnOther, AnnInt]"]]
  from th2[rule_format, OF r2]
  have "length [JInt 5, JStr ''x''] = length (drop 1 [''key'', ''5'', ''x''])
      \<and> (\<forall>i. length (drop 1 [AnnOther, AnnInt]) \<le> i \<longrightarrow> i < length (drop 1 [''key'', ''5'', ''x'']) \<longrightarrow>
                 [JInt 5, JStr ''x''] ! i = JStr (drop 1 [''key'', ''5'', ''x''] ! i))" .
  then have "length [JInt 5, JStr ''x''] = 2 \<and> [JInt 5, JStr ''x''] ! 1 = JStr ''x''"
    by simp
  with r2 have "\<exists>out. create_handler_args ?c2 [AnnOther, AnnInt] = Inr out \<and> length out = 2 \<and> out ! 1 = JStr ''x''"
    by (intro exI[of _ "[JInt 5, JStr ''x'']"]) simp
  with r1 l1 show ?thesis
    by (intro conjI)
qed

section \<open>Outbound actions when the application is offline\<close>

lemma offline_flag: "app ctx = Some a \<Longrightarrow> DONT_REGISTER_WITH_DISCORD (config a) \<Longrightarrow> offline ctx"
  by (simp add: offline_def)

lemma dump_all_returning: "dump_all (returning n f m d fmt) ps = Inr (map d ps)"
  by (induction ps) (simp_all add: returning_def)

lemma get_command_cases:
  assumes "app ctx = Some a"
  shows "get_command ctx None = Inr (command_id ctx)"
    and "discord_commands a = Some reg \<Longrightarrow> map_of reg nm = Some c \<Longrightarrow> get_command ctx (Some nm) = Inr c"
    and "discord_commands a = Some reg \<Longrightarrow> map_of reg nm = None \<Longrightarrow>
           get_command ctx (Some nm) = Inl ValueError"
    and "discord_commands a = None \<Longrightarrow> get_command ctx (Some nm) = Inl AttributeError"
  using assms by (simp_all add: get_command_def)

lemma overwrite_permissions_frozen:
  assumes "app ctx = Some a" and "discord_commands a = None"
  shows "overwrite_permissions X http ctx ps (Some nm) = ([], Inl AttributeError)"
    and "async_overwrite_permissions X http ctx ps (Some nm) = ([], Inl AttributeError)"
  using assms get_command_cases(4)[OF assms]
  by (simp_all add: overwrite_permissions_def async_overwrite_permissions_def permissions_url_def)

text \<open>
  C9, as stated, fails. With the flag set, \<open>overwrite_permissions\<close> for a command name
  that is not registered raises \<open>ValueError\<close>: the command is looked up before the flag
  is read. On the frozen copy of the context, whose application object has no
  registry, a named command raises \<open>AttributeError\<close>.
\<close>

theorem offline_counterexample:
  "DONT_REGISTER_WITH_DISCORD (config (App0 True)) \<and> app (Context1 True) = Some (App0 True) \<and>
   overwrite_permissions Externals0 (client0 200) (Context1 True) [] (Some ''nope'') =
     ([], Inl ValueError) \<and>
   freeze \<lparr>CHAT_INPUT = 1, USER = 2, MESSAGE = 3\<rparr> (Context1 True) (JObj []) = Inr Context2 \<and>
   app Context2 = Some (freeze_app (App0 True)) \<and>
   DONT_REGISTER_WITH_DISCORD (config (freeze_app (App0 True))) \<and>
   overwrite_permissions Externals0 (client0 200) Context2 [] (Some ''ping'') =
     ([], Inl AttributeError)"
proof -
  have 1: "DONT_REGISTER_WITH_DISCORD (config (App0 True))" "app (Context1 True) = Some (App0 True)"
    by (simp_all add: App0_def Context1_def)
  have 2: "overwrite_permissions Externals0 (client0 200) (Context1 True) [] (Some ''nope'') =
     ([], Inl ValueError)"
    by (simp add: overwrite_permissions_def permissions_url_def get_command_def Context1_def
        App0_def Context0_def)
  have 3: "freeze \<lparr>CHAT_INPUT = 1, USER = 2, MESSAGE = 3\<rparr> (Context1 True) (JObj []) = Inr Context2"
    by (simp add: freeze_def freeze_app_def Context1_def Context2_def App0_def Context0_def
        auth_headers_def from_data_def construct_def parse_custom_id_def parse_resolved_def
        parse_target_def py_or_def seq_index_def parse_table_def)
  have 4: "app Context2 = Some (freeze_app (App0 True))"
    "DONT_REGISTER_WITH_DISCORD (config (freeze_app (App0 True)))"
    by (simp_all add: Context2_def freeze_app_def App0_def)
  have 5: "overwrite_permissions Externals0 (client0 200) Context2 [] (Some ''ping'') =
     ([], Inl AttributeError)"
    by (simp add: overwrite_permissions_def permissions_url_def get_command_def Context2_def
        freeze_app_def App0_def Context0_def)
  from 1 2 3 4 5 show ?thesis
    by (intro conjI)
qed

text \<open>
  C9, amended. When the flag is set, none of the four outbound actions, blocking or
  suspending, issues an HTTP call, and \<open>send\<close>, \<open>edit\<close> and \<open>delete\<close> return at once
  without error for every input (the methods of \<open>Message\<close> and \<open>Permission\<close> being the
  conversions of the spec, which return). \<open>overwrite_permissions\<close> returns without
  error when the command is omitted; when a command is named and the application
  carries its command registry, it returns without error if the name is registered
  and raises the unknown-command error, \<open>ValueError\<close>, if it is not.
\<close>

theorem offline_no_call:
  assumes "app ctx = Some a" and "DONT_REGISTER_WITH_DISCORD (config a)"
  shows "send X http ctx response = ([], Inr JNull)
       \<and> delete X http ctx message = ([], Inr JNull)
       \<and> async_delete X http ctx message = ([], Inr JNull)
       \<and> edit (returning n f m d fmt) http ctx response message = ([], Inr JNull)
       \<and> async_edit (returning n f m d fmt) http ctx response message = ([], Inr JNull)
       \<and> async_send (returning n f m d fmt) http ctx response = ([], Inr JNull)
       \<and> fst (edit X http ctx response message) = []
       \<and> fst (async_edit X http ctx response message) = []
       \<and> fst (async_send X http ctx response) = []
       \<and> fst (overwrite_permissions X http ctx permissions command) = []
       \<and> fst (async_overwrite_permissions X http ctx permissions command) = []
       \<and> (command = None \<or>
            (\<exists>nm reg c. command = Some nm \<and> discord_commands a = Some reg \<and> map_of reg nm = Some c) \<longrightarrow>
            overwrite_permissions (returning n f m d fmt) http ctx permissions command = ([], Inr JNull) \<and>
            async_overwrite_permissions (returning n f m d fmt) http ctx permissions command =
              ([], Inr JNull))
       \<and> (\<forall>nm reg. command = Some nm \<longrightarrow> discord_commands a = Some reg \<longrightarrow> map_of reg nm = None \<longrightarrow>
            overwrite_permissions X http ctx permissions command = ([], Inl ValueError) \<and>
            async_overwrite_permissions X http ctx permissions command = ([], Inl ValueError))"
proof -
  have off: "offline ctx"
    using assms by (rule offline_flag)
  have 1: "send X http ctx response = ([], Inr JNull)"
    "delete X http ctx message = ([], Inr JNull)"
    "async_delete X http ctx message = ([], Inr JNull)"
    using off by (simp_all add: send_def delete_def async_delete_def)
  have 2: "edit (returning n f m d fmt) http ctx response message = ([], Inr JNull)"
    "async_edit (returning n f m d fmt) http ctx response message = ([], Inr JNull)"
    "async_send (returning n f m d fmt) http ctx response = ([], Inr JNull)"
    using off by (simp_all add: edit_def async_edit_def async_send_def returning_def)
  have 3: "fst (edit X http ctx response message) = []"
    "fst (async_edit X http ctx response message) = []"
    "fst (async_send X http ctx response) = []"
    using off by (simp_all add: edit_def async_edit_def async_send_def split: sum.splits)
  have 4: "fst (overwrite_permissions X http ctx permissions command) = []"
    "fst (async_overwrite_permissions X http ctx permissions command) = []"
    using off assms
    by (simp_all add: overwrite_permissions_def async_overwrite_permissions_def
          split: sum.splits prod.splits)
  have 5: "overwrite_permissions (returning n f m d fmt) http ctx permissions command = ([], Inr JNull) \<and>
            async_overwrite_permissions (returning n f m d fmt) http ctx permissions command =
              ([], Inr JNull)"
    if "command = None \<or>
            (\<exists>nm reg c. command = Some nm \<and> discord_commands a = Some reg \<and> map_of reg nm = Some c)"
  proof -
    from that get_command_cases(1,2)[OF assms(1)] obtain c where "get_command ctx command = Inr c"
      by auto
    then show ?thesis
      using off assms
      by (simp add: overwrite_permissions_def async_overwrite_permissions_def permissions_url_def
          dump_all_returning)
  qed
  have 6: "overwrite_permissions X http ctx permissions command = ([], Inl ValueError) \<and>
            async_overwrite_permissions X http ctx permissions command = ([], Inl ValueError)"
    if "command = Some nm" and "discord_commands a = Some reg" and "map_of reg nm = None" for nm reg
  proof -
    from that get_command_cases(3)[OF assms(1)] have "get_command ctx command = Inl ValueError"
      by simp
    then show ?thesis
      using assms(1)
      by (simp add: overwrite_permissions_def async_overwrite_permissions_def permissions_url_def)
  qed
  from 1 2 3 4 5 6 show ?thesis
    by (intro conjI allI impI) blast+
qed

theorem offline_no_call_witness:
  "app (Context1 True) = Some (App0 True) \<and> DONT_REGISTER_WITH_DISCORD (config (App0 True))
   \<and> send Externals0 (client0 200) (Context1 True) (JStr ''hi'') = ([], Inr JNull)
   \<and> delete Externals0 (client0 200) (Context1 True) (JStr ''@original'') = ([], Inr JNull)
   \<and> edit (returning id id id id (format Externals0)) (client0 200) (Context1 True)
        (JStr ''hi'') (JStr ''@original'') = ([], Inr JNull)
   \<and> async_send (returning id id id id (format Externals0)) (client0 200) (Context1 True)
        (JStr ''hi'') = ([], Inr JNull)
   \<and> overwrite_permissions (returning id id id id (format Externals0)) (client0 200) (Context1 True)
        [JStr ''p''] (Some ''ping'') = ([], Inr JNull)
   \<and> overwrite_permissions (returning id id id id (format Externals0)) (client0 200) (Context1 True)
        [JStr ''p''] None = ([], Inr JNull)
   \<and> overwrite_permissions Externals0 (client0 200) (Context1 True) [JStr ''p''] (Some ''nope'') =
        ([], Inl ValueError)"
proof -
  let ?R = "returning id id id id (format Externals0)"
  have a: "app (Context1 True) = Some (App0 True)"
    by (simp add: Context1_def)
  have f: "DONT_REGISTER_WITH_DISCORD (config (App0 True))"
    by (simp add: App0_def)
  have c: "Some ''ping'' = None \<or>
      (\<exists>nm reg c. Some ''ping'' = Some nm \<and> discord_commands (App0 True) = Some reg \<and>
         map_of reg nm = Some c)"
    by (simp add: App0_def)
  have c': "(None :: string option) = None \<or>
      (\<exists>nm reg c. None = Some nm \<and> discord_commands (App0 True) = Some reg \<and>
         map_of reg nm = Some c)"
    by simp
  have u: "discord_commands (App0 True) = Some [(''ping'', JStr ''11'')]"
    "map_of [(''ping'', JStr ''11'')] ''nope'' = None"
    by (simp_all add: App0_def)
  note thN = offline_no_call[where X = Externals0 and http = "client0 200"
      and response = "JStr ''hi''" and message = "JStr ''@original''" and permissions = "[JStr ''p'']"
      and n = id and f = id and m = id and d = id and fmt = "format Externals0"
      and command = None, OF a f]
  note thP = offline_no_call[where X = Externals0 and http = "client0 200"
      and response = "JStr ''hi''" and message = "JStr ''@original''" and permissions = "[JStr ''p'']"
      and n = id and f = id and m = id and d = id and fmt = "format Externals0"
      and command = "Some ''ping''", OF a f]
  note thU = offline_no_call[where X = Externals0 and http = "client0 200"
      and response = "JStr ''hi''" and message = "JStr ''@original''" and permissions = "[JStr ''p'']"
      and n = id and f = id and m = id and d = id and fmt = "format Externals0"
      and command = "Some ''nope''", OF a f]
  have 1: "send Externals0 (client0 200) (Context1 True) (JStr ''hi'') = ([], Inr JNull)"
    by (rule thN[THEN conjunct1])
  have 2: "delete Externals0 (client0 200) (Context1 True) (JStr ''@original'') = ([], Inr JNull)"
    by (rule thN[THEN conjunct2, THEN conjunct1])
  have 3: "edit ?R (client0 200) (Context1 True) (JStr ''hi'') (JStr ''@original'') = ([], Inr JNull)"
    by (rule thN[THEN conjunct2, THEN conjunct2, THEN conjunct2, THEN conjunct1])
  have 4: "async_send ?R (client0 200) (Context1 True) (JStr ''hi'') = ([], Inr JNull)"
    by (rule thN[THEN conjunct2, THEN conjunct2, THEN conjunct2, THEN conjunct2,
          THEN conjunct2, THEN conjunct1])
  have 5: "overwrite_permissions ?R (client0 200) (Context1 True) [JStr ''p''] (Some ''ping'') =
      ([], Inr JNull)"
    by (rule thP[THEN conjunct2, THEN conjunct2, THEN conjunct2, THEN conjunct2, THEN conjunct2,
      THEN conjunct2, THEN conjunct2, THEN conjunct2, THEN conjunct2, THEN conjunct2, THEN conjunct2,
      THEN conjunct1, THEN mp, OF c, THEN conjunct1])
  have 6: "overwrite_permissions ?R (client0 200) (Context1 True) [JStr ''p''] None = ([], Inr JNull)"
    by (rule thN[THEN conjunct2, THEN conjunct2, THEN conjunct2, THEN conjunct2, THEN conjunct2,
      THEN conjunct2, THEN conjunct2, THEN conjunct2, THEN conjunct2, THEN conjunct2, THEN conjunct2,
      THEN conjunct1, THEN mp, OF c', THEN conjunct1])
  have 7: "overwrite_permissions Externals0 (client0 200) (Context1 True) [JStr ''p''] (Some ''nope'') =
      ([], Inl ValueError)"
    by (rule thU[THEN conjunct2, THEN conjunct2, THEN conjunct2, THEN conjunct2, THEN conjunct2,
      THEN conjunct2, THEN conjunct2, THEN conjunct2, THEN conjunct2, THEN conjunct2, THEN conjunct2,
      THEN conjunct2, THEN spec, THEN spec, THEN mp,
          OF refl, THEN mp, OF u(1), THEN mp, OF u(2), THEN conjunct1])
  from a f 1 2 3 4 5 6 7 show ?thesis
    by (intro conjI)
qed

section \<open>The blocking and the suspending context\<close>

lemma raise_for_status_error:
  "400 \<le> status_code r \<Longrightarrow> status_code r < 600 \<Longrightarrow> raise_for_status r = Inl HTTPError"
  by (simp add: raise_for_status_def)

lemma edit_agree:
  "auth_headers ctx = Inr h \<Longrightarrow>
     map core (fst (edit X http ctx r m)) = map core (fst (async_edit X session ctx r m))"
  by (auto simp: edit_def async_edit_def core_def ebind_def split: sum.splits)

lemma delete_agree:
  "auth_headers ctx = Inr h \<Longrightarrow>
     map core (fst (delete X http ctx m)) = map core (fst (async_delete X session ctx m))"
  by (auto simp: delete_def async_delete_def core_def ebind_def split: sum.splits)

lemma send_agree:
  "\<not> offline ctx \<or> (\<exists>msg. from_return_value X r = Inr msg) \<Longrightarrow>
     fst (send X http ctx r) = fst (async_send X session ctx r)"
  by (auto simp: send_def async_send_def ebind_def split: sum.splits)

lemma overwrite_agree:
  "fst (overwrite_permissions X http ctx ps c) = fst (async_overwrite_permissions X session ctx ps c)"
  by (auto simp: overwrite_permissions_def async_overwrite_permissions_def permissions_url_def
        offline_def Let_def ebind_def split: sum.splits option.splits prod.splits)

lemma blocking_raises:
  assumes "http rq = Inr resp" and "400 \<le> status_code resp" and "status_code resp < 600"
  shows "fst (edit X http ctx r m) = [rq] \<Longrightarrow> snd (edit X http ctx r m) = Inl HTTPError"
    and "fst (delete X http ctx m) = [rq] \<Longrightarrow> snd (delete X http ctx m) = Inl HTTPError"
    and "fst (send X http ctx r) = [rq] \<Longrightarrow> snd (send X http ctx r) = Inl HTTPError"
    and "fst (overwrite_permissions X http ctx ps c) = [rq] \<Longrightarrow>
           snd (overwrite_permissions X http ctx ps c) = Inl HTTPError"
  using assms raise_for_status_error[OF assms(2,3)]
  by (auto simp: edit_def delete_def send_def overwrite_permissions_def Let_def ebind_def
        split: sum.splits if_splits option.splits prod.splits)

lemma suspending_returns:
  assumes "session rq = Inr resp"
  shows "fst (async_edit X session ctx r m) = [rq] \<Longrightarrow> snd (async_edit X session ctx r m) = Inr JNull"
    and "fst (async_delete X session ctx m) = [rq] \<Longrightarrow> snd (async_delete X session ctx m) = Inr JNull"
    and "fst (async_send X session ctx r) = [rq] \<Longrightarrow>
           snd (async_send X session ctx r) = subscript (json_body resp) (JStr ''id'')"
    and "fst (async_overwrite_permissions X session ctx ps c) = [rq] \<Longrightarrow>
           snd (async_overwrite_permissions X session ctx ps c) = Inr JNull"
  using assms
  by (auto simp: async_edit_def async_delete_def async_send_def async_overwrite_permissions_def
        Let_def ebind_def split: sum.splits if_splits option.splits prod.splits)

lemma same_result:
  assumes "\<forall>rq resp. http rq = Inr resp \<longrightarrow> raise_for_status resp = Inr ()"
  shows "overwrite_permissions X http ctx ps c = async_overwrite_permissions X http ctx ps c"
    and "\<not> offline ctx \<or> (\<exists>msg. from_return_value X r = Inr msg) \<Longrightarrow>
           send X http ctx r = async_send X http ctx r"
proof -
  have ok: "ebind (http rq) (\<lambda>r. ebind (raise_for_status r) (\<lambda>_. f r)) = ebind (http rq) f" for rq f
    using assms by (cases "http rq") auto
  show "overwrite_permissions X http ctx ps c = async_overwrite_permissions X http ctx ps c"
    unfolding overwrite_permissions_def async_overwrite_permissions_def ok
    by (auto simp: offline_def permissions_url_def ebind_Inr split: sum.splits option.splits prod.splits)
  show "send X http ctx r = async_send X http ctx r"
    if "\<not> offline ctx \<or> (\<exists>msg. from_return_value X r = Inr msg)"
    unfolding send_def async_send_def ok
    using that by (cases "from_return_value X r") auto
qed


text \<open>
  C8 does not hold of the code. For an online application, the blocking \<open>edit\<close> and
  \<open>delete\<close> pass the authorization headers to the client, and the suspending \<open>edit\<close>
  and \<open>delete\<close> pass no \<open>headers\<close> argument at all, at the same method, URL and body.
  The suspending \<open>send\<close> and \<open>overwrite_permissions\<close> do pass them.
\<close>

theorem suspending_headers_missing:
  "edit Externals0 (client0 200) (Context1 False) (JStr ''hi'') (JStr ''@original'') =
     ([\<lparr>http_method = ''PATCH'',
        url = ''https://discord.com/api/webhooks/7/tok/messages/@original'',
        headers = Some [(''Authorization'', ''Bot secret'')],
        payload = JsonBody (JStr ''hi'')\<rparr>], Inr JNull)
   \<and> async_edit Externals0 (client0 200) (Context1 False) (JStr ''hi'') (JStr ''@original'') =
     ([\<lparr>http_method = ''PATCH'',
        url = ''https://discord.com/api/webhooks/7/tok/messages/@original'',
        headers = None,
        payload = JsonBody (JStr ''hi'')\<rparr>], Inr JNull)
   \<and> delete Externals0 (client0 200) (Context1 False) (JStr ''@original'') =
     ([\<lparr>http_method = ''DELETE'',
        url = ''https://discord.com/api/webhooks/7/tok/messages/@original'',
        headers = Some [(''Authorization'', ''Bot secret'')],
        payload = NoBody\<rparr>], Inr JNull)
   \<and> async_delete Externals0 (client0 200) (Context1 False) (JStr ''@original'') =
     ([\<lparr>http_method = ''DELETE'',
        url = ''https://discord.com/api/webhooks/7/tok/messages/@original'',
        headers = None,
        payload = NoBody\<rparr>], Inr JNull)
   \<and> async_send Externals0 (client0 200) (Context1 False) (JStr ''hi'') =
     ([\<lparr>http_method = ''POST'',
        url = ''https://discord.com/api/webhooks/7/tok'',
        headers = Some [(''Authorization'', ''Bot secret'')],
        payload = Multipart (JStr ''hi'')\<rparr>], Inr (JStr ''1''))
   \<and> async_overwrite_permissions Externals0 (client0 200) (Context1 False) [] None =
     ([\<lparr>http_method = ''PUT'',
        url = ''https://discord.com/api/applications/7/guilds/9/commands/11/permissions'',
        headers = Some [(''Authorization'', ''Bot secret'')],
        payload = JsonBody (JObj [(''permissions'', JList [])])\<rparr>], Inr JNull)"
  by (simp add: edit_def async_edit_def delete_def async_delete_def async_send_def
        async_overwrite_permissions_def permissions_url_def get_command_def
        Externals0_def Context1_def Context0_def App0_def
        client0_def offline_def followup_url_def auth_headers_def raise_for_status_def)

section \<open>Dispatch on the interaction type\<close>

lemma py_eq_int_same: "py_eq_int t a \<Longrightarrow> py_eq_int t b \<Longrightarrow> a = b"
  by (cases t) (auto split: if_splits)

lemma from_data_target:
  assumes "from_data ACT dis ap data = Inr ctx"
  obtains c2 where "parse_target ACT c2 = Inr ctx" "ctx = c2\<lparr>target := target ctx\<rparr>"
proof -
  from assms obtain c0 c1 c2 where "parse_target ACT c2 = Inr ctx"
    by (rule from_data_Inr)
  with parse_target_Inr[OF this] that show ?thesis by blast
qed

lemma message_payload_context:
  assumes "MESSAGE ACT = 2" and "ApplicationCommandType.USER ACT \<noteq> MESSAGE ACT"
  shows "from_data ACT dis ap message_payload =
     Inr (Context0\<lparr>type := JInt 2, target_id := JStr ''42'',
           resolved := JObj [(''messages'',
             JObj [(''42'', JObj [(''id'', JStr ''42''), (''content'', JStr ''hi'')])])],
           messages := Some [(JStr ''42'', Entity Message [(''id'', JStr ''42''), (''content'', JStr ''hi'')])],
           app := ap, discord := dis,
           target := Some (Entity Message [(''id'', JStr ''42''), (''content'', JStr ''hi'')])\<rparr>)"
  using assms
  by (simp add: from_data_def construct_def message_payload_def Context0_def parse_custom_id_def
        parse_resolved_def parse_target_def py_or_def seq_index_def parse_table_def dict_lookup_def)


lemma parse_target_cases:
  assumes "parse_target ACT c = Inr ctx"
    and "ApplicationCommandType.USER ACT \<noteq> MESSAGE ACT"
  shows "(py_eq_int (type ctx) (ApplicationCommandType.USER ACT) \<longrightarrow>
            (\<exists>e. table_lookup (members ctx) (target_id ctx) = Inr e \<and> target ctx = Some e))"
    and "(py_eq_int (type ctx) (MESSAGE ACT) \<longrightarrow>
            (\<exists>e. table_lookup (messages ctx) (target_id ctx) = Inr e \<and> target ctx = Some e))"
    and "(\<not> py_eq_int (type ctx) (ApplicationCommandType.USER ACT) \<longrightarrow>
         \<not> py_eq_int (type ctx) (MESSAGE ACT) \<longrightarrow> target ctx = None)"
  using assms py_eq_int_same[of "type c" "ApplicationCommandType.USER ACT" "MESSAGE ACT"]
  by (auto simp: parse_target_def ebind_Inr table_lookup_def split: if_splits option.splits)

section \<open>The loop over the resolved members\<close>

lemma setitem_Inr: "setitem d k v = Inr d' \<longleftrightarrow> (\<exists>kvs. d = JObj kvs \<and> d' = JObj (AList.update k v kvs))"
  by (cases d) auto

lemma subscript_JStr_Inr:
  "subscript c (JStr k) = Inr v \<longleftrightarrow> (\<exists>kvs. c = JObj kvs \<and> map_of kvs k = Some v)"
  by (cases c) (auto split: option.splits)

lemma members_loop_Cons_Inr:
  "members_loop (i # ids) rsv ms = Inr res \<longleftrightarrow>
     (\<exists>mtab mkvs utab u.
        subscript rsv (JStr ''members'') = Inr mtab \<and> subscript mtab i = Inr (JObj mkvs) \<and>
        subscript rsv (JStr ''users'') = Inr utab \<and> subscript utab i = Inr u \<and>
        \<not> unhashable i \<and>
        members_loop ids
          (replace_child rsv (JStr ''members'')
             (replace_child mtab i (JObj (AList.update ''user'' u mkvs))))
          (AList.update i (Entity Member (AList.update ''user'' u mkvs)) ms) = Inr res)"
  by (auto simp: ebind_Inr setitem_Inr dict_store_def split: if_splits)

lemma users_replace:
  "subscript rsv (JStr ''members'') = Inr mtab \<Longrightarrow>
     subscript (replace_child rsv (JStr ''members'') x) (JStr ''users'') = subscript rsv (JStr ''users'')"
  by (cases rsv) (auto simp: update_conv' split: option.splits)

lemma members_loop_users:
  "members_loop ids rsv ms = Inr (rsv', ms') \<Longrightarrow>
     subscript rsv' (JStr ''users'') = subscript rsv (JStr ''users'')"
proof (induction ids arbitrary: rsv ms)
  case Nil
  then show ?case by simp
next
  case (Cons i ids)
  from Cons.prems obtain mtab mkvs u where
    m: "subscript rsv (JStr ''members'') = Inr mtab"
    and rest: "members_loop ids
          (replace_child rsv (JStr ''members'')
             (replace_child mtab i (JObj (AList.update ''user'' u mkvs))))
          (AList.update i (Entity Member (AList.update ''user'' u mkvs)) ms) = Inr (rsv', ms')"
    unfolding members_loop_Cons_Inr by blast
  from Cons.IH[OF rest] users_replace[OF m] show ?case by simp
qed

lemma members_loop_table:
  "members_loop ids rsv ms = Inr (rsv', ms') \<Longrightarrow>
     (\<forall>i e. map_of ms i = Some e \<longrightarrow> member_ok rsv i e) \<Longrightarrow>
     (\<forall>i e. map_of ms' i = Some e \<longrightarrow> member_ok rsv i e) \<and>
     (\<forall>i \<in> set ids. \<exists>e. map_of ms' i = Some e) \<and>
     (\<forall>i. map_of ms i \<noteq> None \<longrightarrow> map_of ms' i \<noteq> None) \<and>
     (\<forall>i. map_of ms' i \<noteq> None \<longrightarrow> map_of ms i \<noteq> None \<or> i \<in> set ids)"
proof (induction ids arbitrary: rsv ms)
  case Nil
  then show ?case by simp
next
  case (Cons i ids)
  from Cons.prems(1) obtain mtab mkvs utab u where
    m: "subscript rsv (JStr ''members'') = Inr mtab"
    and ut: "subscript rsv (JStr ''users'') = Inr utab" and u: "subscript utab i = Inr u"
    and rest: "members_loop ids
          (replace_child rsv (JStr ''members'')
             (replace_child mtab i (JObj (AList.update ''user'' u mkvs))))
          (AList.update i (Entity Member (AList.update ''user'' u mkvs)) ms) = Inr (rsv', ms')"
    unfolding members_loop_Cons_Inr by blast
  let ?rsv1 = "replace_child rsv (JStr ''members'')
             (replace_child mtab i (JObj (AList.update ''user'' u mkvs)))"
  let ?ms1 = "AList.update i (Entity Member (AList.update ''user'' u mkvs)) ms"
  have same: "member_ok ?rsv1 j e = member_ok rsv j e" for j e
    by (simp add: member_ok_def users_replace[OF m])
  have new: "member_ok rsv i (Entity Member (AList.update ''user'' u mkvs))"
    using ut u by (simp add: member_ok_def update_conv')
  have "\<forall>j e. map_of ?ms1 j = Some e \<longrightarrow> member_ok ?rsv1 j e"
    using Cons.prems(2) new by (auto simp: same update_conv')
  from Cons.IH[OF rest this] show ?case
    by (auto simp: same update_conv' split: if_splits)
qed


lemma members_replace:
  "subscript rsv (JStr ''members'') = Inr (JObj tab) \<Longrightarrow>
     subscript (replace_child rsv (JStr ''members'') (replace_child (JObj tab) (JStr k) x))
        (JStr ''members'') = Inr (JObj (AList.update k x tab))"
  by (cases rsv) (auto simp: update_conv' split: option.splits)

lemma members_loop_KeyError:
  assumes "subscript rsv (JStr ''members'') = Inr (JObj tab)"
    and "\<forall>k v. map_of tab k = Some v \<longrightarrow> (\<exists>mk. v = JObj mk)"
    and "subscript rsv (JStr ''users'') = Inl KeyError \<or>
         (\<exists>utab. subscript rsv (JStr ''users'') = Inr (JObj utab))"
    and "\<forall>i \<in> set ids. \<exists>k. i = JStr k \<and> map_of tab k \<noteq> None"
    and "\<exists>i \<in> set ids. \<forall>utab. subscript rsv (JStr ''users'') = Inr utab \<longrightarrow>
            (\<forall>u. subscript utab i \<noteq> Inr u)"
  shows "members_loop ids rsv ms = Inl KeyError"
  using assms
proof (induction ids arbitrary: rsv tab ms)
  case Nil
  then show ?case by simp
next
  case (Cons i ids)
  from Cons.prems(4) obtain k where k: "i = JStr k" and "map_of tab k \<noteq> None"
    by auto
  with Cons.prems(2) obtain mk where mk: "map_of tab k = Some (JObj mk)"
    by blast
  from Cons.prems(3) show ?case
  proof
    assume "subscript rsv (JStr ''users'') = Inl KeyError"
    with Cons.prems(1) mk k show ?thesis by simp
  next
    assume "\<exists>utab. subscript rsv (JStr ''users'') = Inr (JObj utab)"
    then obtain utab where ut: "subscript rsv (JStr ''users'') = Inr (JObj utab)" ..
    show ?thesis
    proof (cases "map_of utab k")
      case None
      with Cons.prems(1) mk k ut show ?thesis by simp
    next
      case (Some u)
      let ?m' = "JObj (AList.update ''user'' u mk)"
      let ?rsv1 = "replace_child rsv (JStr ''members'') (replace_child (JObj tab) (JStr k) ?m')"
      let ?tab1 = "AList.update k ?m' tab"
      let ?ms1 = "AList.update (JStr k) (Entity Member (AList.update ''user'' u mk)) ms"
      have step: "members_loop (i # ids) rsv ms = members_loop ids ?rsv1 ?ms1"
        using Cons.prems(1) mk k ut Some by (simp add: dict_store_def)
      have 1: "subscript ?rsv1 (JStr ''members'') = Inr (JObj ?tab1)"
        using Cons.prems(1) by (rule members_replace)
      have 2: "\<forall>k' v. map_of ?tab1 k' = Some v \<longrightarrow> (\<exists>mk. v = JObj mk)"
        using Cons.prems(2) by (auto simp: update_conv')
      have us: "subscript ?rsv1 (JStr ''users'') = subscript rsv (JStr ''users'')"
        using Cons.prems(1) by (rule users_replace)
      have 3: "subscript ?rsv1 (JStr ''users'') = Inl KeyError \<or>
         (\<exists>utab. subscript ?rsv1 (JStr ''users'') = Inr (JObj utab))"
        using ut us by simp
      have 4: "\<forall>i \<in> set ids. \<exists>k'. i = JStr k' \<and> map_of ?tab1 k' \<noteq> None"
      proof
        fix j assume "j \<in> set ids"
        with Cons.prems(4) obtain k' where "j = JStr k'" "map_of tab k' \<noteq> None"
          by auto
        then show "\<exists>k'. j = JStr k' \<and> map_of ?tab1 k' \<noteq> None"
          by (intro exI[of _ k']) (simp add: update_conv')
      qed
      have 5: "\<exists>i \<in> set ids. \<forall>utab. subscript ?rsv1 (JStr ''users'') = Inr utab \<longrightarrow>
            (\<forall>u. subscript utab i \<noteq> Inr u)"
        using Cons.prems(5) ut Some k unfolding us by auto
      from Cons.IH[OF 1 2 3 4 5] step show ?thesis by simp
    qed
  qed
qed

lemma parse_resolved_members:
  assumes "parse_resolved c = Inr c'"
  shows "\<exists>mtab ids ms. dict_get (resolved c) ''members'' (JObj []) = Inr mtab \<and>
    py_iter mtab = Inr ids \<and> members_loop ids (resolved c) [] = Inr (resolved c', ms) \<and>
    members c' = Some ms"
proof -
  from assms obtain mtab ids p where 1: "dict_get (resolved c) ''members'' (JObj []) = Inr mtab"
    and 2: "py_iter mtab = Inr ids" and 3: "members_loop ids (resolved c) [] = Inr p"
    and 4: "(case p of (rsv, ms) \<Rightarrow>
     ebind (parse_table Channel rsv ''channels'') (\<lambda>cs.
     ebind (parse_table Role rsv ''roles'') (\<lambda>rs.
     ebind (parse_table Message rsv ''messages'') (\<lambda>gs.
       Inr (c\<lparr>resolved := rsv, members := Some ms, channels := Some cs,
                 roles := Some rs, messages := Some gs\<rparr>))))) = Inr c'"
    unfolding parse_resolved_def ebind_Inr by blast
  obtain rsv ms where p: "p = (rsv, ms)" by (cases p)
  from 4 have "resolved c' = rsv" "members c' = Some ms"
    unfolding p by (auto simp: ebind_Inr)
  with 1 2 3 p show ?thesis by blast
qed


lemma is_dict_conv: "is_dict v \<longleftrightarrow> (\<exists>kvs. v = JObj kvs)"
  by (cases v) auto

lemma parse_resolved_KeyError:
  assumes "member_without_user (resolved c)"
  shows "parse_resolved c = Inl KeyError"
proof -
  from assms obtain rkvs where r: "resolved c = JObj rkvs"
    by (cases "resolved c") (simp_all add: member_without_user_def)
  with assms have mw: "(case map_of rkvs ''members'' of
             Some (JObj tab) \<Rightarrow>
               list_all (\<lambda>kv. is_dict (snd kv)) tab \<and>
               (case map_of rkvs ''users'' of
                  None \<Rightarrow> tab \<noteq> []
                | Some (JObj utab) \<Rightarrow> (\<exists>k \<in> fst ` set tab. map_of utab k = None)
                | Some _ \<Rightarrow> False)
           | _ \<Rightarrow> False)"
    by (simp add: member_without_user_def)
  then obtain mt where mt: "map_of rkvs ''members'' = Some mt"
    by (cases "map_of rkvs ''members''") simp_all
  with mw obtain tab where tab: "mt = JObj tab"
    by (cases mt) simp_all
  from mt tab have m: "map_of rkvs ''members'' = Some (JObj tab)"
    by simp
  from mw have d: "list_all (\<lambda>kv. is_dict (snd kv)) tab"
    and u: "(case map_of rkvs ''users'' of
                  None \<Rightarrow> tab \<noteq> []
                | Some (JObj utab) \<Rightarrow> (\<exists>k \<in> fst ` set tab. map_of utab k = None)
                | Some _ \<Rightarrow> False)"
    unfolding m by simp_all
  have 1: "subscript (resolved c) (JStr ''members'') = Inr (JObj tab)"
    using r m by simp
  have 2: "\<forall>k v. map_of tab k = Some v \<longrightarrow> (\<exists>mk. v = JObj mk)"
    using d by (auto simp: list_all_iff is_dict_conv dest!: map_of_SomeD)
  have 3: "subscript (resolved c) (JStr ''users'') = Inl KeyError \<or>
         (\<exists>utab. subscript (resolved c) (JStr ''users'') = Inr (JObj utab))"
    using r u by (auto split: option.splits json.splits)
  have 4: "\<forall>i \<in> set (map (\<lambda>kv. JStr (fst kv)) tab). \<exists>k. i = JStr k \<and> map_of tab k \<noteq> None"
    by (auto simp: map_of_eq_None_iff)
  have 5: "\<exists>i \<in> set (map (\<lambda>kv. JStr (fst kv)) tab).
      \<forall>utab. subscript (resolved c) (JStr ''users'') = Inr utab \<longrightarrow> (\<forall>u. subscript utab i \<noteq> Inr u)"
  proof (cases "map_of rkvs ''users''")
    case None
    with u obtain kv where "kv \<in> set tab" by (cases tab) auto
    with None r show ?thesis by (intro bexI[of _ "JStr (fst kv)"]) auto
  next
    case (Some ut)
    with u obtain utab k where "ut = JObj utab" "k \<in> fst ` set tab" "map_of utab k = None"
      by (auto split: json.splits)
    with Some r show ?thesis by (intro bexI[of _ "JStr k"]) auto
  qed
  have "members_loop (map (\<lambda>kv. JStr (fst kv)) tab) (resolved c) [] = Inl KeyError"
    using 1 2 3 4 5 by (rule members_loop_KeyError)
  then show ?thesis
    using r m by (simp add: parse_resolved_def)
qed

lemma from_data_members:
  assumes "from_data ACT dis ap data = Inr ctx"
  shows "\<exists>ms. members ctx = Some ms \<and>
     (\<forall>d rsv0 mtab ids.
        dict_get (if data = JNull then JObj [] else data) ''data'' (JObj []) = Inr d \<longrightarrow>
        dict_get d ''resolved'' (JObj []) = Inr rsv0 \<longrightarrow>
        dict_get rsv0 ''members'' (JObj []) = Inr mtab \<longrightarrow>
        py_iter mtab = Inr ids \<longrightarrow>
        (\<forall>i e. map_of ms i = Some e \<longrightarrow> i \<in> set ids \<and> member_ok rsv0 i e) \<and>
        (\<forall>i \<in> set ids. \<exists>e. map_of ms i = Some e))"
proof -
  from assms obtain c0 c1 c2 where
    c0: "construct ACT dis ap (if data = JNull then JObj [] else data) = Inr c0"
    and c1: "parse_custom_id c0 = Inr c1" and c2: "parse_resolved c1 = Inr c2"
    and c3: "parse_target ACT c2 = Inr ctx"
    by (rule from_data_Inr)
  from c0 obtain d rsv where dd: "dict_get (if data = JNull then JObj [] else data) ''data'' (JObj []) = Inr d"
    and dr: "dict_get d ''resolved'' (JObj []) = Inr rsv" and r0: "resolved c0 = rsv"
    by (rule construct_Inr)
  from c1 have r1: "resolved c1 = resolved c0"
    by (rule parse_custom_id_Inr) simp
  from parse_resolved_members[OF c2] obtain mtab ids ms where
    gm: "dict_get (resolved c1) ''members'' (JObj []) = Inr mtab"
    and it: "py_iter mtab = Inr ids"
    and lp: "members_loop ids (resolved c1) [] = Inr (resolved c2, ms)"
    and ms: "members c2 = Some ms"
    by blast
  have mc: "members ctx = Some ms"
    by (subst parse_target_Inr[OF c3]) (simp add: ms)
  from members_loop_table[OF lp]
  have tab: "(\<forall>i e. map_of ms i = Some e \<longrightarrow> member_ok (resolved c1) i e)"
    "(\<forall>i \<in> set ids. \<exists>e. map_of ms i = Some e)"
    "(\<forall>i. map_of ms i \<noteq> None \<longrightarrow> i \<in> set ids)"
    by auto
  show ?thesis
    using mc tab dd dr gm it unfolding r1 r0 by (intro exI[of _ ms]) auto
qed


section \<open>Members and their users\<close>

text \<open>
  C10. Parsing the resolved table needs a resolved user for every resolved member.
  When \<open>resolved\<close> is well formed (a dictionary whose \<open>members\<close> is a dictionary of
  dictionaries and whose \<open>users\<close> is absent or a dictionary) and some member
  identifier has no entry in \<open>users\<close>, \<open>parse_resolved\<close> raises \<open>KeyError\<close>, and so
  does \<open>from_data\<close> once the constructor call and the custom identifier have gone
  through. Conversely, in every context that \<open>from_data\<close> returns, the members
  table has an entry for each identifier of the payload's \<open>resolved.members\<close> and
  for no other, and each entry is a \<open>Member\<close> whose \<open>user\<close> is the payload's
  \<open>resolved.users\<close> entry of the same identifier.
\<close>

theorem members_need_users:
  "(member_without_user (resolved c) \<longrightarrow> parse_resolved c = Inl KeyError)
   \<and> (construct ACT dis ap (if data = JNull then JObj [] else data) = Inr c0 \<longrightarrow>
       parse_custom_id c0 = Inr c1 \<longrightarrow> member_without_user (resolved c0) \<longrightarrow>
       from_data ACT dis ap data = Inl KeyError)
   \<and> (from_data ACT dis ap data = Inr ctx \<longrightarrow>
       (\<exists>ms. members ctx = Some ms \<and>
          (\<forall>d rsv0 mtab ids.
             dict_get (if data = JNull then JObj [] else data) ''data'' (JObj []) = Inr d \<longrightarrow>
             dict_get d ''resolved'' (JObj []) = Inr rsv0 \<longrightarrow>
             dict_get rsv0 ''members'' (JObj []) = Inr mtab \<longrightarrow>
             py_iter mtab = Inr ids \<longrightarrow>
             (\<forall>i e. map_of ms i = Some e \<longrightarrow> i \<in> set ids \<and> member_ok rsv0 i e) \<and>
             (\<forall>i \<in> set ids. \<exists>e. map_of ms i = Some e))))"
proof (intro conjI impI)
  assume "member_without_user (resolved c)"
  then show "parse_resolved c = Inl KeyError"
    by (rule parse_resolved_KeyError)
next
  assume c0: "construct ACT dis ap (if data = JNull then JObj [] else data) = Inr c0"
    and c1: "parse_custom_id c0 = Inr c1" and m: "member_without_user (resolved c0)"
  from c1 have "resolved c1 = resolved c0"
    by (rule parse_custom_id_Inr) simp
  with m have "parse_resolved c1 = Inl KeyError"
    by (simp add: parse_resolved_KeyError)
  with c0 c1 show "from_data ACT dis ap data = Inl KeyError"
    by (simp add: from_data_def)
next
  assume "from_data ACT dis ap data = Inr ctx"
  then show "\<exists>ms. members ctx = Some ms \<and>
          (\<forall>d rsv0 mtab ids.
             dict_get (if data = JNull then JObj [] else data) ''data'' (JObj []) = Inr d \<longrightarrow>
             dict_get d ''resolved'' (JObj []) = Inr rsv0 \<longrightarrow>
             dict_get rsv0 ''members'' (JObj []) = Inr mtab \<longrightarrow>
             py_iter mtab = Inr ids \<longrightarrow>
             (\<forall>i e. map_of ms i = Some e \<longrightarrow> i \<in> set ids \<and> member_ok rsv0 i e) \<and>
             (\<forall>i \<in> set ids. \<exists>e. map_of ms i = Some e))"
    by (rule from_data_members)
qed

theorem members_need_users_witness:
  "member_without_user (JObj [(''members'', JObj [(''1'', JObj [])]), (''users'', JObj [])])
   \<and> parse_resolved
        (Context0\<lparr>resolved := JObj [(''members'', JObj [(''1'', JObj [])]), (''users'', JObj [])]\<rparr>)
       = Inl KeyError
   \<and> from_data \<lparr>CHAT_INPUT = 1, USER = 2, MESSAGE = 3\<rparr> None None member_payload =
       Inr (Context0\<lparr>resolved := JObj
              [(''members'', JObj [(''1'', JObj [(''nick'', JStr ''n''),
                                               (''user'', JObj [(''id'', JStr ''1'')])])]),
               (''users'', JObj [(''1'', JObj [(''id'', JStr ''1'')])])],
            members := Some [(JStr ''1'', Entity Member [(''nick'', JStr ''n''),
                                               (''user'', JObj [(''id'', JStr ''1'')])])]\<rparr>)
   \<and> (\<exists>ms. members (Context0\<lparr>resolved := JObj
              [(''members'', JObj [(''1'', JObj [(''nick'', JStr ''n''),
                                               (''user'', JObj [(''id'', JStr ''1'')])])]),
               (''users'', JObj [(''1'', JObj [(''id'', JStr ''1'')])])],
            members := Some [(JStr ''1'', Entity Member [(''nick'', JStr ''n''),
                                               (''user'', JObj [(''id'', JStr ''1'')])])]\<rparr>) = Some ms
        \<and> (\<forall>i \<in> set [JStr ''1'']. \<exists>e. map_of ms i = Some e))"
proof -
  let ?ACT = "\<lparr>CHAT_INPUT = 1, USER = 2, MESSAGE = 3\<rparr>"
  let ?R = "JObj [(''members'', JObj [(''1'', JObj [])]), (''users'', JObj [])]"
  let ?rsv0 = "JObj [(''members'', JObj [(''1'', JObj [(''nick'', JStr ''n'')])]),
         (''users'', JObj [(''1'', JObj [(''id'', JStr ''1'')])])]"
  let ?ctx = "Context0\<lparr>resolved := JObj
              [(''members'', JObj [(''1'', JObj [(''nick'', JStr ''n''),
                                               (''user'', JObj [(''id'', JStr ''1'')])])]),
               (''users'', JObj [(''1'', JObj [(''id'', JStr ''1'')])])],
            members := Some [(JStr ''1'', Entity Member [(''nick'', JStr ''n''),
                                               (''user'', JObj [(''id'', JStr ''1'')])])]\<rparr>"
  have w: "member_without_user ?R"
    by code_simp
  then have w': "member_without_user (resolved (Context0\<lparr>resolved := ?R\<rparr>))"
    by simp
  have fd: "from_data ?ACT None None member_payload = Inr ?ctx"
    by (simp add: from_data_def construct_def member_payload_def Context0_def parse_custom_id_def
        parse_resolved_def parse_target_def py_or_def seq_index_def parse_table_def dict_store_def)
  note th = members_need_users[of "Context0\<lparr>resolved := ?R\<rparr>" ?ACT None None member_payload
      Context0 Context0 ?ctx]
  have 1: "parse_resolved (Context0\<lparr>resolved := ?R\<rparr>) = Inl KeyError"
    by (rule th[THEN conjunct1, THEN mp, OF w'])
  from th[THEN conjunct2, THEN conjunct2, THEN mp, OF fd]
  obtain ms where ms: "members ?ctx = Some ms"
    and all: "\<forall>d rsv0 mtab ids.
             dict_get (if member_payload = JNull then JObj [] else member_payload) ''data'' (JObj []) = Inr d \<longrightarrow>
             dict_get d ''resolved'' (JObj []) = Inr rsv0 \<longrightarrow>
             dict_get rsv0 ''members'' (JObj []) = Inr mtab \<longrightarrow>
             py_iter mtab = Inr ids \<longrightarrow>
             (\<forall>i e. map_of ms i = Some e \<longrightarrow> i \<in> set ids \<and> member_ok rsv0 i e) \<and>
             (\<forall>i \<in> set ids. \<exists>e. map_of ms i = Some e)"
    by (elim exE conjE)
  have g1: "dict_get (if member_payload = JNull then JObj [] else member_payload) ''data'' (JObj []) =
      Inr (JObj [(''resolved'', ?rsv0)])"
    by (simp add: member_payload_def)
  have g2: "dict_get (JObj [(''resolved'', ?rsv0)]) ''resolved'' (JObj []) = Inr ?rsv0"
    by simp
  have g3: "dict_get ?rsv0 ''members'' (JObj []) = Inr (JObj [(''1'', JObj [(''nick'', JStr ''n'')])])"
    by simp
  have g4: "py_iter (JObj [(''1'', JObj [(''nick'', JStr ''n'')])]) = Inr [JStr ''1'']"
    by simp
  from all[THEN spec, THEN spec, THEN spec, THEN spec, THEN mp, OF g1, THEN mp, OF g2,
      THEN mp, OF g3, THEN mp, OF g4, THEN conjunct2]
  have "\<forall>i \<in> set [JStr ''1'']. \<exists>e. map_of ms i = Some e" .
  with ms have 2: "\<exists>ms. members ?ctx = Some ms \<and> (\<forall>i \<in> set [JStr ''1'']. \<exists>e. map_of ms i = Some e)"
    by (intro exI[of _ ms] conjI)
  from w 1 fd 2 show ?thesis
    by (intro conjI)
qed

lemma create_args_recursive_unfold:
  "create_args_recursive COT data rsv =
     (case dict_get data ''options'' JNull of
        Inl e \<Rightarrow> (rsv, Inl e)
      | Inr opts \<Rightarrow>
          if \<not> truthy opts then (rsv, Inr ([], []))
          else (case opts of
             JList os \<Rightarrow> fold (option_step COT) os (rsv, Inr ([], []))
           | _ \<Rightarrow> (rsv, Inl TypeError)))"
  unfolding option_step_def[abs_def]
  by (subst create_args_recursive.simps) (rule refl)

declare create_args_recursive.simps [simp del]

lemma seq_index_mem: "seq_index xs i = Inr v \<Longrightarrow> v \<in> set xs"
  by (auto simp: seq_index_def split: if_splits)

lemma seq_index_update:
  "seq_index xs i = Inr v \<Longrightarrow>
     xs[nat (if i < 0 then int (length xs) + i else i) := v] = xs"
  by (auto simp: seq_index_def split: if_splits)

lemma replace_child_same: "subscript c k = Inr v \<Longrightarrow> replace_child c k v = c"
proof (cases c)
  case (JObj kvs)
  assume "subscript c k = Inr v"
  with JObj show ?thesis
    by (cases k) (auto simp: update_triv split: option.splits if_splits)
next
  case (JList xs)
  assume "subscript c k = Inr v"
  with JList show ?thesis
    by (auto dest: seq_index_update split: option.splits if_splits)
qed simp_all

lemma user_option_frame:
  assumes "merged rsv"
  shows "fst (user_option option rsv kwargs) = rsv"
proof (cases "ebind (subscript rsv (JStr ''members'')) (\<lambda>mtab.
           ebind (subscript option (JStr ''value'')) (\<lambda>v.
           ebind (subscript mtab v) (\<lambda>member_data.
           ebind (subscript rsv (JStr ''users'')) (\<lambda>utab.
           ebind (subscript utab v) (\<lambda>user.
           ebind (setitem member_data ''user'' user) (\<lambda>member_data'.
             Inr (replace_child rsv (JStr ''members'') (replace_child mtab v member_data'),
                  member_data')))))))")
  case (Inl e)
  then show ?thesis by (simp add: user_option_def)
next
  case (Inr p)
  then obtain mtab v mkvs utab u where
    m: "subscript rsv (JStr ''members'') = Inr mtab"
    and md: "subscript mtab v = Inr (JObj mkvs)"
    and ut: "subscript rsv (JStr ''users'') = Inr utab" and u: "subscript utab v = Inr u"
    and p: "p = (replace_child rsv (JStr ''members'')
                  (replace_child mtab v (JObj (AList.update ''user'' u mkvs))),
                 JObj (AList.update ''user'' u mkvs))"
    by (auto simp: ebind_Inr setitem_Inr)
  from assms m md ut u have "map_of mkvs ''user'' = Some u"
    unfolding merged_def merged_at_def by blast
  then have "AList.update ''user'' u mkvs = mkvs"
    by (rule update_triv)
  with p md m have "fst p = rsv"
    by (simp add: replace_child_same)
  then show ?thesis
    unfolding user_option_def Inr by (auto split: prod.splits)
qed

lemma fold_frame:
  assumes "\<And>x st. x \<in> set os \<Longrightarrow> fst st = rsv \<Longrightarrow> fst (step x st) = rsv"
    and "fst st = rsv"
  shows "fst (fold step os st) = rsv"
  using assms by (induction os arbitrary: st) auto

lemma create_args_recursive_frame:
  assumes "merged rsv"
  shows "fst (create_args_recursive COT data rsv) = rsv"
proof (induction data rule: measure_induct_rule[where f = size])
  case (less data)
  have step: "fst (option_step COT x st) = rsv"
    if x: "x \<in> set os" and os: "dict_get data ''options'' JNull = Inr (JList os)"
      and st: "fst st = rsv" for x os st
  proof -
    from os x have "size x < size data"
      by (rule size_options)
    then have "fst (create_args_recursive COT x rsv) = rsv"
      by (rule less.IH)
    then have rec: "a = rsv" if "create_args_recursive COT x rsv = (a, b)" for a b
      using that by simp
    have uo: "a = rsv" if "user_option x rsv kw = (a, b)" for kw a b
      using user_option_frame[OF assms, of x kw] that by simp
    obtain r where "st = (rsv, r)"
      using st by (cases st) simp
    then show ?thesis
      by (auto simp: option_step_def split: sum.splits prod.splits dest: rec uo)
  qed
  show ?case
    unfolding create_args_recursive_unfold[of COT data rsv]
    by (auto split: sum.splits json.splits intro!: fold_frame step)
qed


lemma members_replace':
  "subscript rsv (JStr ''members'') = Inr mtab \<Longrightarrow>
     subscript (replace_child rsv (JStr ''members'') x) (JStr ''members'') = Inr x"
  by (cases rsv) (auto simp: update_conv' split: option.splits)

lemma members_loop_merged_dict:
  assumes "members_loop ids rsv ms = Inr (rsv', ms')"
    and "subscript rsv (JStr ''members'') = Inr (JObj tab)"
    and "\<forall>i. i \<notin> set ids \<longrightarrow> merged_at rsv i"
  shows "merged rsv'"
  using assms
proof (induction ids arbitrary: rsv ms tab)
  case Nil
  then show ?case by (simp add: merged_def)
next
  case (Cons i ids)
  from Cons.prems(1,2) obtain mkvs utab u where
    md: "subscript (JObj tab) i = Inr (JObj mkvs)"
    and ut: "subscript rsv (JStr ''users'') = Inr utab" and u: "subscript utab i = Inr u"
    and rest: "members_loop ids
          (replace_child rsv (JStr ''members'')
             (replace_child (JObj tab) i (JObj (AList.update ''user'' u mkvs))))
          (AList.update i (Entity Member (AList.update ''user'' u mkvs)) ms) = Inr (rsv', ms')"
    unfolding members_loop_Cons_Inr by auto
  from md obtain k where k: "i = JStr k" and mk: "map_of tab k = Some (JObj mkvs)"
    by (cases i) (auto split: option.splits if_splits)
  define tab1 where "tab1 = AList.update k (JObj (AList.update ''user'' u mkvs)) tab"
  define rsv1 where "rsv1 = replace_child rsv (JStr ''members'') (JObj tab1)"
  from rest have rest': "members_loop ids rsv1
      (AList.update i (Entity Member (AList.update ''user'' u mkvs)) ms) = Inr (rsv', ms')"
    by (simp add: k rsv1_def tab1_def)
  have 1: "subscript rsv1 (JStr ''members'') = Inr (JObj tab1)"
    unfolding rsv1_def using Cons.prems(2) by (rule members_replace')
  have us: "subscript rsv1 (JStr ''users'') = Inr utab"
    unfolding rsv1_def using users_replace[OF Cons.prems(2)] ut by simp
  have same: "subscript (JObj tab1) (JStr k) = Inr (JObj (AList.update ''user'' u mkvs))"
    by (simp add: tab1_def update_conv')
  have other: "subscript (JObj tab1) j = subscript (JObj tab) j" if "j \<noteq> JStr k" for j
    using that by (cases j) (auto simp: tab1_def update_conv')
  have 2: "\<forall>j. j \<notin> set ids \<longrightarrow> merged_at rsv1 j"
  proof (intro allI impI)
    fix j assume j: "j \<notin> set ids"
    show "merged_at rsv1 j"
    proof (cases "j = JStr k")
      case True
      have "map_of (AList.update ''user'' u mkvs) ''user'' = Some u"
        by (simp add: update_conv')
      with u k 1 us same show ?thesis
        unfolding True by (auto simp: merged_at_def simp del: subscript.simps)
    next
      case False
      with j k Cons.prems(3) have "merged_at rsv j" by simp
      with 1 us Cons.prems(2) ut other[OF False] show ?thesis
        by (auto simp: merged_at_def simp del: subscript.simps)
    qed
  qed
  from Cons.IH[OF rest' 1 2] show ?case .
qed

lemma members_list_replace:
  "subscript rsv (JStr ''members'') = Inr (JList xs) \<Longrightarrow>
     \<exists>xs'. subscript (replace_child rsv (JStr ''members'') (replace_child (JList xs) i x))
        (JStr ''members'') = Inr (JList xs')"
  by (cases rsv) (auto simp: update_conv' split: option.splits)

lemma members_loop_list_ids:
  assumes "members_loop ids rsv ms = Inr res"
    and "subscript rsv (JStr ''members'') = Inr (JList xs)"
  shows "\<forall>i \<in> set ids. index_of i \<noteq> None"
  using assms
proof (induction ids arbitrary: rsv ms xs)
  case Nil
  then show ?case by simp
next
  case (Cons i ids)
  from Cons.prems obtain mkvs u where
    md: "subscript (JList xs) i = Inr (JObj mkvs)"
    and rest: "members_loop ids
          (replace_child rsv (JStr ''members'')
             (replace_child (JList xs) i (JObj (AList.update ''user'' u mkvs))))
          (AList.update i (Entity Member (AList.update ''user'' u mkvs)) ms) = Inr res"
    unfolding members_loop_Cons_Inr by auto
  from md have i: "index_of i \<noteq> None"
    by (auto split: option.splits)
  from members_list_replace[OF Cons.prems(2)] obtain xs' where
    "subscript (replace_child rsv (JStr ''members'')
             (replace_child (JList xs) i (JObj (AList.update ''user'' u mkvs))))
        (JStr ''members'') = Inr (JList xs')" by blast
  from Cons.IH[OF rest this] i show ?case by simp
qed

lemma members_loop_list_empty:
  assumes "members_loop xs rsv ms = Inr res"
    and "subscript rsv (JStr ''members'') = Inr (JList xs)"
  shows "xs = []"
proof (cases xs)
  case Nil
  then show ?thesis .
next
  case (Cons i ids)
  from assms(1)[unfolded Cons members_loop_Cons_Inr] assms(2)
  obtain mkvs where "subscript (JList xs) i = Inr (JObj mkvs)"
    unfolding Cons by auto
  then have "JObj mkvs \<in> set xs"
    by (auto split: option.splits dest: seq_index_mem)
  with members_loop_list_ids[OF assms] have "index_of (JObj mkvs) \<noteq> None"
    by blast
  then show ?thesis by simp
qed

lemma parse_resolved_merged:
  assumes "parse_resolved c = Inr c'"
  shows "merged (resolved c')"
proof -
  from parse_resolved_members[OF assms] obtain mtab ids ms where
    gm: "dict_get (resolved c) ''members'' (JObj []) = Inr mtab"
    and it: "py_iter mtab = Inr ids"
    and lp: "members_loop ids (resolved c) [] = Inr (resolved c', ms)"
    by blast
  from gm obtain rkvs where r: "resolved c = JObj rkvs"
    by (cases "resolved c") simp_all
  show ?thesis
  proof (cases "map_of rkvs ''members''")
    case None
    with gm r it have "ids = []" by auto
    with lp have "resolved c' = resolved c" by simp
    with None r show ?thesis by (simp add: merged_def merged_at_def)
  next
    case (Some mt)
    with gm r have mt: "mtab = mt" by simp
    have sub: "subscript (resolved c) (JStr ''members'') = Inr mtab"
      using Some r mt by simp
    show ?thesis
    proof (cases mtab)
      case (JObj tab)
      have "\<forall>i. i \<notin> set ids \<longrightarrow> merged_at (resolved c) i"
      proof (intro allI impI)
        fix i assume "i \<notin> set ids"
        with it JObj have "\<And>v. subscript (JObj tab) i \<noteq> Inr v"
          by (cases i) (force split: option.splits dest!: map_of_SomeD)+
        with sub JObj show "merged_at (resolved c) i"
          by (simp add: merged_at_def)
      qed
      with lp sub[unfolded JObj] show ?thesis
        by (rule members_loop_merged_dict)
    next
      case (JList xs)
      with it have "ids = xs" by simp
      with lp sub JList have "xs = []"
        by (auto dest: members_loop_list_empty)
      with lp \<open>ids = xs\<close> have "resolved c' = resolved c" by simp
      with sub JList \<open>xs = []\<close> show ?thesis
        by (auto simp: merged_def merged_at_def seq_index_def split: option.splits)
    next
      case (JStr str)
      show ?thesis
      proof (cases str)
        case Nil
        with it JStr have "ids = []" by simp
        with lp have "resolved c' = resolved c" by simp
        with sub JStr Nil show ?thesis
          by (auto simp: merged_def merged_at_def seq_index_def split: option.splits)
      next
        case (Cons ch rest)
        with it JStr have "ids = JStr [ch] # map (\<lambda>c. JStr [c]) rest" by auto
        with lp sub JStr have False
          unfolding members_loop_Cons_Inr by auto
        then show ?thesis ..
      qed
    qed (use it in simp_all)
  qed
qed

lemma from_data_merged:
  assumes "from_data ACT dis ap data = Inr ctx"
  shows "merged (resolved ctx)"
proof -
  from assms obtain c0 c1 c2 where c2: "parse_resolved c1 = Inr c2"
    and c3: "parse_target ACT c2 = Inr ctx"
    by (rule from_data_Inr)
  have "resolved ctx = resolved c2"
    by (subst parse_target_Inr[OF c3]) simp
  with parse_resolved_merged[OF c2] show ?thesis by simp
qed

lemma create_args_frame_merged:
  assumes "merged (resolved ctx)"
  shows "fst (create_args ACT COT ctx) = ctx"
proof -
  have "fst (create_args_recursive COT (JObj [(''options'', options ctx)]) (resolved ctx)) =
      resolved ctx"
    using assms by (rule create_args_recursive_frame)
  then have "fst (create_args_chat_input COT ctx) = ctx"
    by (auto simp: create_args_chat_input_def split: prod.splits)
  then show ?thesis
    by (auto simp: create_args_def split: prod.splits)
qed


section \<open>The context after construction\<close>

text \<open>
  C7. \<open>create_args\<close> leaves a context that \<open>from_data\<close> has built as it is: every
  field, the retained \<open>resolved\<close> object included, has the value it had. The one
  assignment \<open>create_args\<close> makes, \<open>member_data["user"] = ...\<close> for a user option,
  writes the value that \<open>parse_resolved\<close> has already stored there.
  \<open>create_handler_args\<close> works on the copy \<open>handler_state[1:]\<close> and has no access to
  the context's fields other than reading them, which is why it is a function
  that returns no context.
\<close>

theorem create_args_read_only:
  assumes "from_data ACT dis ap data = Inr ctx"
  shows "fst (create_args ACT COT ctx) = ctx"
  using from_data_merged[OF assms] by (rule create_args_frame_merged)

theorem create_args_read_only_witness:
  "from_data \<lparr>CHAT_INPUT = 1, USER = 2, MESSAGE = 3\<rparr> None None user_payload =
     Inr (Context0\<lparr>options := JList [JObj [(''type'', JInt 6), (''name'', JStr ''who''),
                                    (''value'', JStr ''1'')]],
            resolved := JObj
              [(''members'', JObj [(''1'', JObj [(''nick'', JStr ''n''),
                                               (''user'', JObj [(''id'', JStr ''1'')])])]),
               (''users'', JObj [(''1'', JObj [(''id'', JStr ''1'')])])],
            members := Some [(JStr ''1'', Entity Member [(''nick'', JStr ''n''),
                                               (''user'', JObj [(''id'', JStr ''1'')])])]\<rparr>)
   \<and> create_args \<lparr>CHAT_INPUT = 1, USER = 2, MESSAGE = 3\<rparr>
        \<lparr>SUB_COMMAND = 1, SUB_COMMAND_GROUP = 2, USER = 6, CHANNEL = 7, ROLE = 8\<rparr>
        (Context0\<lparr>options := JList [JObj [(''type'', JInt 6), (''name'', JStr ''who''),
                                    (''value'', JStr ''1'')]],
            resolved := JObj
              [(''members'', JObj [(''1'', JObj [(''nick'', JStr ''n''),
                                               (''user'', JObj [(''id'', JStr ''1'')])])]),
               (''users'', JObj [(''1'', JObj [(''id'', JStr ''1'')])])],
            members := Some [(JStr ''1'', Entity Member [(''nick'', JStr ''n''),
                                               (''user'', JObj [(''id'', JStr ''1'')])])]\<rparr>) =
       (Context0\<lparr>options := JList [JObj [(''type'', JInt 6), (''name'', JStr ''who''),
                                    (''value'', JStr ''1'')]],
            resolved := JObj
              [(''members'', JObj [(''1'', JObj [(''nick'', JStr ''n''),
                                               (''user'', JObj [(''id'', JStr ''1'')])])]),
               (''users'', JObj [(''1'', JObj [(''id'', JStr ''1'')])])],
            members := Some [(JStr ''1'', Entity Member [(''nick'', JStr ''n''),
                                               (''user'', JObj [(''id'', JStr ''1'')])])]\<rparr>,
        Inr (Some ([], [(JStr ''who'', Ent (Entity Member [(''nick'', JStr ''n''),
                                               (''user'', JObj [(''id'', JStr ''1'')])]))])))"
proof -
  let ?ACT = "\<lparr>CHAT_INPUT = 1, USER = 2, MESSAGE = 3\<rparr>"
  let ?COT = "\<lparr>SUB_COMMAND = 1, SUB_COMMAND_GROUP = 2, USER = 6, CHANNEL = 7, ROLE = 8\<rparr>"
  let ?ctx = "Context0\<lparr>options := JList [JObj [(''type'', JInt 6), (''name'', JStr ''who''),
                                    (''value'', JStr ''1'')]],
            resolved := JObj
              [(''members'', JObj [(''1'', JObj [(''nick'', JStr ''n''),
                                               (''user'', JObj [(''id'', JStr ''1'')])])]),
               (''users'', JObj [(''1'', JObj [(''id'', JStr ''1'')])])],
            members := Some [(JStr ''1'', Entity Member [(''nick'', JStr ''n''),
                                               (''user'', JObj [(''id'', JStr ''1'')])])]\<rparr>"
  have fd: "from_data ?ACT None None user_payload = Inr ?ctx"
    by (simp add: from_data_def construct_def user_payload_def Context0_def parse_custom_id_def
        parse_resolved_def parse_target_def py_or_def seq_index_def parse_table_def dict_store_def)
  have r: "snd (create_args ?ACT ?COT ?ctx) =
      Inr (Some ([], [(JStr ''who'', Ent (Entity Member [(''nick'', JStr ''n''),
                                               (''user'', JObj [(''id'', JStr ''1'')])]))]))"
    by code_simp
  from create_args_read_only[OF fd, of ?COT] r
  have "create_args ?ACT ?COT ?ctx = (?ctx, Inr (Some ([], [(JStr ''who'',
      Ent (Entity Member [(''nick'', JStr ''n''), (''user'', JObj [(''id'', JStr ''1'')])]))])))"
    by (simp only: prod_eq_iff fst_conv snd_conv simp_thms)
  with fd show ?thesis
    by (intro conjI)
qed

section \<open>Arguments of a chat input command\<close>

lemma last_named_append:
  "last_named (l1 @ l2) n = (case last_named l2 n of Some x \<Rightarrow> Some x | None \<Rightarrow> last_named l1 n)"
  by (simp add: last_named_def map_add_def split: option.splits)

lemma last_named_None: "last_named ls n = None \<longleftrightarrow> JStr n \<notin> leaf_key ` set ls"
proof -
  have "fst ` set (rev (map (\<lambda>l. (fst (snd l), (fst l, snd (snd l)))) ls)) = (\<lambda>l. fst (snd l)) ` set ls"
    by (simp add: image_image)
  then have "last_named ls n = None \<longleftrightarrow> n \<notin> (\<lambda>l. fst (snd l)) ` set ls"
    by (simp add: last_named_def map_of_eq_None_iff)
  also have "\<dots> \<longleftrightarrow> JStr n \<notin> leaf_key ` set ls"
    by (auto simp: leaf_key_def)
  finally show ?thesis .
qed

lemma fits_Nil: "fits COT [] Map.empty"
  by (simp add: fits_def last_named_def)

lemma fits_append:
  assumes "fits COT l1 m1" and "fits COT l2 m2"
  shows "fits COT (l1 @ l2) (m1 ++ m2)"
  unfolding fits_def
proof (intro conjI allI impI)
  show "dom (m1 ++ m2) = leaf_key ` set (l1 @ l2)"
    using assms by (simp add: fits_def image_Un Un_commute)
next
  fix n t v
  assume l: "last_named (l1 @ l2) n = Some (t, v)" and r: "raw_type COT t"
  show "(m1 ++ m2) (JStr n) = Some (Raw v)"
  proof (cases "last_named l2 n")
    case None
    with l have "last_named l1 n = Some (t, v)"
      by (simp add: last_named_append)
    with assms(1) r have 1: "m1 (JStr n) = Some (Raw v)"
      unfolding fits_def by blast
    from None assms(2) have "JStr n \<notin> dom m2"
      unfolding fits_def last_named_None by simp
    then have "m2 (JStr n) = None" by blast
    with 1 show ?thesis by (simp add: map_add_def)
  next
    case (Some x)
    with l have "last_named l2 n = Some (t, v)"
      by (simp add: last_named_append)
    with assms(2) r have "m2 (JStr n) = Some (Raw v)"
      unfolding fits_def by blast
    then show ?thesis by (simp add: map_add_def)
  qed
qed

lemma fits_single:
  "fits COT [(t, n, v)] [JStr n \<mapsto> x]" if "raw_type COT t \<longrightarrow> x = Raw v"
  using that by (auto simp: fits_def last_named_def leaf_key_def)

lemma dict_update_map_of:
  "distinct (map fst e) \<Longrightarrow> map_of (dict_update d e) = map_of d ++ map_of e"
proof (induction e arbitrary: d)
  case Nil
  then show ?case by (simp add: dict_update_def)
next
  case (Cons kv e)
  have "map_of (dict_update d (kv # e)) = map_of (dict_update (AList.update (fst kv) (snd kv) d) e)"
    by (simp add: dict_update_def)
  also have "\<dots> = map_of (AList.update (fst kv) (snd kv) d) ++ map_of e"
    using Cons by simp
  also have "\<dots> = map_of d ++ map_of (kv # e)"
  proof -
    have "map_of e (fst kv) = None"
      using Cons.prems by (cases kv) (auto simp: map_of_eq_None_iff)
    then show ?thesis
      by (cases kv) (auto simp: update_conv' map_add_def fun_eq_iff split: option.splits)
  qed
  finally show ?case .
qed

lemma dict_update_distinct:
  "distinct (map fst d) \<Longrightarrow> distinct (map fst (dict_update d e))"
  by (induction e arbitrary: d) (simp_all add: dict_update_def distinct_update)

lemma raw_option_enc:
  "raw_option (enc COT (Leaf t n v)) kw = Inr (AList.update (JStr n) (Raw v) kw)"
  by (simp add: raw_option_def dict_store_def)

lemma entity_option_enc:
  "entity_option k tab (enc COT (Leaf t n v)) rsv kw = Inr kw' \<Longrightarrow>
     \<exists>e. kw' = AList.update (JStr n) (Ent e) kw"
  by (auto simp: entity_option_def ebind_Inr dict_store_def)

lemma user_option_enc:
  "user_option (enc COT (Leaf t n v)) rsv kw = (rsv', Inr kw') \<Longrightarrow>
     \<exists>e. kw' = AList.update (JStr n) (Ent e) kw"
  by (auto simp: user_option_def ebind_Inr dict_store_def split: sum.splits prod.splits)

lemma option_step_error: "snd st = Inl e \<Longrightarrow> option_step COT x st = st"
  by (simp add: option_step_def)

lemma fold_option_step_error: "snd st = Inl e \<Longrightarrow> fold (option_step COT) xs st = st"
  by (induction xs) (simp_all add: option_step_error)

lemma option_step_leaf:
  assumes "option_step COT (enc COT (Leaf t n v)) (rsv, Inr (args, kw)) = (rsv', Inr (args', kw'))"
    and "well_typed COT (Leaf t n v)"
  shows "args' = args \<and> (\<exists>x. kw' = AList.update (JStr n) x kw \<and> (raw_type COT t \<longrightarrow> x = Raw v))"
proof -
  have ty: "subscript (enc COT (Leaf t n v)) (JStr ''type'') = Inr (JInt t)"
    by simp
  from assms(2) have ns: "\<not> (py_eq_int (JInt t) (SUB_COMMAND COT) \<or> py_eq_int (JInt t) (SUB_COMMAND_GROUP COT))"
    by simp
  consider (u) "t = CommandOptionType.USER COT"
    | (c) "t \<noteq> CommandOptionType.USER COT" "t = CHANNEL COT"
    | (r) "t \<noteq> CommandOptionType.USER COT" "t \<noteq> CHANNEL COT" "t = ROLE COT"
    | (o) "raw_type COT t"
    unfolding raw_type_def by blast
  then show ?thesis
  proof cases
    case u
    with assms(1) ns obtain r where "user_option (enc COT (Leaf t n v)) rsv kw = (rsv', r)"
      and "ebind r (\<lambda>kw. Inr (args, kw)) = Inr (args', kw')"
      unfolding option_step_def ty by (auto split: prod.splits)
    then have "user_option (enc COT (Leaf t n v)) rsv kw = (rsv', Inr kw')" "args' = args"
      by (auto simp: ebind_Inr)
    with user_option_enc[OF this(1)] u show ?thesis
      by (auto simp: raw_type_def)
  next
    case c
    with assms(1) ns have "ebind (entity_option Channel ''channels'' (enc COT (Leaf t n v)) rsv kw)
        (\<lambda>kw. Inr (args, kw)) = Inr (args', kw')"
      unfolding option_step_def ty by auto
    then have "entity_option Channel ''channels'' (enc COT (Leaf t n v)) rsv kw = Inr kw'" "args' = args"
      by (auto simp: ebind_Inr)
    with entity_option_enc[OF this(1)] c show ?thesis
      by (auto simp: raw_type_def)
  next
    case r
    with assms(1) ns have "ebind (entity_option Role ''roles'' (enc COT (Leaf t n v)) rsv kw)
        (\<lambda>kw. Inr (args, kw)) = Inr (args', kw')"
      unfolding option_step_def ty by auto
    then have "entity_option Role ''roles'' (enc COT (Leaf t n v)) rsv kw = Inr kw'" "args' = args"
      by (auto simp: ebind_Inr)
    with entity_option_enc[OF this(1)] r show ?thesis
      by (auto simp: raw_type_def)
  next
    case o
    with assms(1) ns have "ebind (raw_option (enc COT (Leaf t n v)) kw)
        (\<lambda>kw. Inr (args, kw)) = Inr (args', kw')"
      unfolding option_step_def ty by (auto simp: raw_type_def)
    then show ?thesis
      unfolding raw_option_enc by auto
  qed
qed

lemma grows_refl: "distinct (map fst (snd a)) \<Longrightarrow> grows COT [] [] a a"
  unfolding grows_def using fits_Nil[of COT] by auto

lemma grows_trans:
  assumes "grows COT n1 l1 a b" and "grows COT n2 l2 b c"
  shows "grows COT (n1 @ n2) (l1 @ l2) a c"
proof -
  from assms(1) obtain m1 where m1: "fits COT l1 m1" "map_of (snd b) = map_of (snd a) ++ m1"
    unfolding grows_def by blast
  from assms(2) obtain m2 where m2: "fits COT l2 m2" "map_of (snd c) = map_of (snd b) ++ m2"
    unfolding grows_def by blast
  have "fits COT (l1 @ l2) (m1 ++ m2)"
    using m1(1) m2(1) by (rule fits_append)
  moreover have "map_of (snd c) = map_of (snd a) ++ (m1 ++ m2)"
    using m1(2) m2(2) by simp
  ultimately show ?thesis
    using assms unfolding grows_def by auto
qed

lemma fold_grows:
  assumes each: "\<And>x rsv a rsv' a'. x \<in> set os \<Longrightarrow>
      option_step COT (enc COT x) (rsv, Inr a) = (rsv', Inr a') \<Longrightarrow>
      distinct (map fst (snd a)) \<Longrightarrow> grows COT (names x) (leaves x) a a'"
    and "fold (option_step COT) (map (enc COT) os) (rsv, Inr a) = (rsv', Inr a')"
    and "distinct (map fst (snd a))"
  shows "grows COT (concat (map names os)) (concat (map leaves os)) a a'"
  using assms
proof (induction os arbitrary: rsv a)
  case Nil
  then show ?case by (simp add: grows_refl)
next
  case (Cons x os)
  obtain r1 e1 where st1: "option_step COT (enc COT x) (rsv, Inr a) = (r1, e1)"
    by (cases "option_step COT (enc COT x) (rsv, Inr a)")
  show ?case
  proof (cases e1)
    case (Inl e)
    with Cons.prems(2) st1 fold_option_step_error[of "(r1, e1)" e COT "map (enc COT) os"]
    show ?thesis by simp
  next
    case (Inr a1)
    from Cons.prems(1)[of x rsv a r1 a1] st1 Inr Cons.prems(3)
    have g1: "grows COT (names x) (leaves x) a a1" by simp
    then have d1: "distinct (map fst (snd a1))"
      by (simp add: grows_def)
    from Cons.prems(2) st1 Inr
    have "fold (option_step COT) (map (enc COT) os) (r1, Inr a1) = (rsv', Inr a')"
      by simp
    from Cons.IH[OF _ this d1] Cons.prems(1)
    have "grows COT (concat (map names os)) (concat (map leaves os)) a1 a'"
      by simp
    with g1 show ?thesis
      by (simp add: grows_trans)
  qed
qed

lemma create_args_recursive_enc:
  "create_args_recursive COT (JObj [(''options'', JList (map (enc COT) os))]) rsv =
     fold (option_step COT) (map (enc COT) os) (rsv, Inr ([], []))"
  by (cases os) (simp_all add: create_args_recursive_unfold)

lemma create_args_recursive_enc_Sub:
  "create_args_recursive COT (enc COT (Sub g n os)) rsv =
     fold (option_step COT) (map (enc COT) os) (rsv, Inr ([], []))"
  by (cases os) (simp_all add: create_args_recursive_unfold)

lemma option_step_Sub:
  "option_step COT (enc COT (Sub g n os)) (rsv, Inr (args, kw)) =
     (case fold (option_step COT) (map (enc COT) os) (rsv, Inr ([], [])) of
        (rsv', Inl e) \<Rightarrow> (rsv', Inl e)
      | (rsv', Inr (sub_args, sub_kwargs)) \<Rightarrow>
          (rsv', Inr (args @ [Raw (JStr n)] @ sub_args, dict_update kw sub_kwargs)))"
  unfolding option_step_def create_args_recursive_enc_Sub by simp

lemma option_step_grows:
  assumes "well_typed COT x"
    and "option_step COT (enc COT x) (rsv, Inr a) = (rsv', Inr a')"
    and "distinct (map fst (snd a))"
  shows "grows COT (names x) (leaves x) a a'"
  using assms
proof (induction x arbitrary: rsv a rsv' a')
  case (Leaf t n v)
  obtain args kw where a: "a = (args, kw)" by (cases a)
  obtain args' kw' where a': "a' = (args', kw')" by (cases a')
  from option_step_leaf[OF Leaf.prems(2)[unfolded a a'] Leaf.prems(1)]
  obtain x where x: "args' = args" "kw' = AList.update (JStr n) x kw" "raw_type COT t \<longrightarrow> x = Raw v"
    by blast
  have "fits COT [(t, n, v)] [JStr n \<mapsto> x]"
    using x(3) by (rule fits_single)
  moreover have "map_of kw' = map_of kw ++ [JStr n \<mapsto> x]"
    by (simp add: x(2) update_conv')
  ultimately show ?case
    using Leaf.prems(3) x(1,2) unfolding grows_def a a' by (auto simp: distinct_update)
next
  case (Sub g n os)
  obtain args kw where a: "a = (args, kw)" by (cases a)
  obtain r1 e1 where f: "fold (option_step COT) (map (enc COT) os) (rsv, Inr ([], [])) = (r1, e1)"
    by (cases "fold (option_step COT) (map (enc COT) os) (rsv, Inr ([], []))")
  from Sub.prems(2) obtain sa sk where e1: "e1 = Inr (sa, sk)"
    and a': "a' = (args @ [Raw (JStr n)] @ sa, dict_update kw sk)"
    unfolding a option_step_Sub f by (cases e1) (auto split: prod.splits)
  have "grows COT (concat (map names os)) (concat (map leaves os)) ([], []) (sa, sk)"
  proof (rule fold_grows)
    show "fold (option_step COT) (map (enc COT) os) (rsv, Inr ([], [])) = (r1, Inr (sa, sk))"
      using f e1 by simp
    show "distinct (map fst (snd ([], [])))" by simp
    show "grows COT (names x) (leaves x) a a'"
      if "x \<in> set os" "option_step COT (enc COT x) (rsv, Inr a) = (rsv', Inr a')"
        "distinct (map fst (snd a))" for x rsv a rsv' a'
      using Sub.IH[OF that(1) _ that(2,3)] Sub.prems(1) that(1) by simp
  qed
  then obtain m where sa: "sa = map (\<lambda>n. Raw (JStr n)) (concat (map names os))"
    and dk: "distinct (map fst sk)" and m: "fits COT (concat (map leaves os)) m" "map_of sk = m"
    unfolding grows_def by auto
  have "map_of (dict_update kw sk) = map_of kw ++ m"
    using dk m(2) by (simp add: dict_update_map_of)
  with m(1) sa Sub.prems(3) show ?case
    unfolding grows_def a a' by (auto simp: dict_update_distinct)
qed

lemma names_is_leaf: "is_leaf x \<Longrightarrow> names x = []"
  by (cases x) simp_all

lemma raw_only_well_typed: "raw_only COT x \<Longrightarrow> well_typed COT x"
  by (induction x) auto

lemma option_step_leaf_raw:
  assumes "t \<noteq> SUB_COMMAND COT" "t \<noteq> SUB_COMMAND_GROUP COT" "raw_type COT t"
  shows "option_step COT (enc COT (Leaf t n v)) (rsv, Inr (args, kw)) =
           (rsv, Inr (args, AList.update (JStr n) (Raw v) kw))"
  using assms unfolding option_step_def
  by (simp add: raw_type_def raw_option_def dict_store_def)

lemma fold_raw:
  assumes "\<And>x a. x \<in> set os \<Longrightarrow> \<exists>a'. option_step COT (enc COT x) (rsv, Inr a) = (rsv, Inr a')"
  shows "\<exists>a'. fold (option_step COT) (map (enc COT) os) (rsv, Inr a) = (rsv, Inr a')"
  using assms
proof (induction os arbitrary: a)
  case Nil
  then show ?case by simp
next
  case (Cons x os)
  from Cons.prems[of x a] obtain a1 where "option_step COT (enc COT x) (rsv, Inr a) = (rsv, Inr a1)"
    by auto
  moreover from Cons.IH[of a1] Cons.prems
  obtain a' where "fold (option_step COT) (map (enc COT) os) (rsv, Inr a1) = (rsv, Inr a')"
    by auto
  ultimately show ?case by simp
qed

lemma option_step_raw:
  "raw_only COT x \<Longrightarrow> \<exists>a'. option_step COT (enc COT x) (rsv, Inr a) = (rsv, Inr a')"
proof (induction x arbitrary: a)
  case (Leaf t n v)
  obtain args kw where a: "a = (args, kw)" by (cases a)
  from Leaf show ?case
    unfolding a by (simp add: option_step_leaf_raw del: enc.simps)
next
  case (Sub g n os)
  obtain args kw where a: "a = (args, kw)" by (cases a)
  have "\<exists>a'. fold (option_step COT) (map (enc COT) os) (rsv, Inr ([], [])) = (rsv, Inr a')"
    by (rule fold_raw) (use Sub in auto)
  then show ?case
    unfolding a option_step_Sub by auto
qed

lemma create_args_chat_input_empty:
  "options ctx = JNull \<or> options ctx = JList [] \<Longrightarrow>
     create_args_chat_input COT ctx = (ctx, Inr ([], []))"
  by (auto simp: create_args_chat_input_def create_args_recursive_unfold)

lemma create_args_chat_input_tree:
  assumes "options ctx = JList (map (enc COT) os)"
    and "\<forall>x \<in> set os. well_typed COT x"
    and "create_args_chat_input COT ctx = (ctx', Inr (args, kwargs))"
  shows "grows COT (concat (map names os)) (concat (map leaves os)) ([], []) (args, kwargs)"
proof -
  from assms(3) obtain rsv' where
    "fold (option_step COT) (map (enc COT) os) (resolved ctx, Inr ([], [])) = (rsv', Inr (args, kwargs))"
    unfolding create_args_chat_input_def assms(1) create_args_recursive_enc
    by (auto split: prod.splits)
  then show ?thesis
    by (rule fold_grows[rotated]) (use assms(2) in \<open>auto intro: option_step_grows\<close>)
qed

lemma create_args_chat_input_raw:
  assumes "options ctx = JList (map (enc COT) os)"
    and "\<forall>x \<in> set os. raw_only COT x"
  shows "\<exists>a. create_args_chat_input COT ctx = (ctx, Inr a)"
proof -
  have "\<exists>a'. fold (option_step COT) (map (enc COT) os) (resolved ctx, Inr ([], [])) = (resolved ctx, Inr a')"
    by (rule fold_raw) (use assms(2) option_step_raw in blast)
  then show ?thesis
    unfolding create_args_chat_input_def assms(1) create_args_recursive_enc by auto
qed

lemma fits_keys:
  assumes "fits COT ls (map_of kw)" and "distinct (map fst kw)"
  shows "fst ` set kw = leaf_key ` set ls"
    and "distinct (map leaf_key ls) \<Longrightarrow> length kw = length ls"
proof -
  from assms(1) show k: "fst ` set kw = leaf_key ` set ls"
    by (simp add: fits_def dom_map_of_conv_image_fst)
  assume d: "distinct (map leaf_key ls)"
  have "length kw = card (fst ` set kw)"
    using assms(2) by (metis distinct_card length_map list.set_map)
  also have "\<dots> = card (leaf_key ` set ls)" by (simp add: k)
  also have "\<dots> = length ls"
    using d by (metis distinct_card length_map list.set_map)
  finally show "length kw = length ls" .
qed

lemma nested_path:
  assumes "t \<noteq> SUB_COMMAND COT" "t \<noteq> SUB_COMMAND_GROUP COT" "raw_type COT t"
    and "options ctx = JList [enc COT (Sub True ''a'' [Sub False ''b'' [Leaf t ''x'' (JInt 1)]])]"
  shows "create_args_chat_input COT ctx =
           (ctx, Inr ([Raw (JStr ''a''), Raw (JStr ''b'')], [(JStr ''x'', Raw (JInt 1))]))"
proof -
  have leaf: "option_step COT (enc COT (Leaf t ''x'' (JInt 1))) (rsv, Inr ([], [])) =
      (rsv, Inr ([], [(JStr ''x'', Raw (JInt 1))]))" for rsv
    using assms(1-3) by (simp add: option_step_leaf_raw del: enc.simps)
  have b: "option_step COT (enc COT (Sub False ''b'' [Leaf t ''x'' (JInt 1)])) (rsv, Inr ([], [])) =
      (rsv, Inr ([Raw (JStr ''b'')], [(JStr ''x'', Raw (JInt 1))]))" for rsv
    unfolding option_step_Sub by (simp add: leaf dict_update_def del: enc.simps)
  have a: "option_step COT (enc COT (Sub True ''a'' [Sub False ''b'' [Leaf t ''x'' (JInt 1)]])) (rsv, Inr ([], [])) =
      (rsv, Inr ([Raw (JStr ''a''), Raw (JStr ''b'')], [(JStr ''x'', Raw (JInt 1))]))" for rsv
    unfolding option_step_Sub by (simp add: b dict_update_def del: enc.simps)
  have "create_args_recursive COT (JObj [(''options'', options ctx)]) (resolved ctx) =
      fold (option_step COT) (map (enc COT) [Sub True ''a'' [Sub False ''b'' [Leaf t ''x'' (JInt 1)]]])
        (resolved ctx, Inr ([], []))"
    unfolding assms(4) create_args_recursive_enc[symmetric] by simp
  then show ?thesis
    unfolding create_args_chat_input_def by (simp add: a del: enc.simps)
qed

text \<open>
  C1. For an option tree, \<open>create_args_chat_input\<close> returns a pair of positional and
  keyword arguments such that: absent or empty options give \<open>([], {})\<close>; whenever it
  returns for a tree, the positional list is the names of the subcommand and subcommand
  group nodes, each before its children's, so it is empty for a tree of leaves only; the
  keyword dictionary has exactly the names of the leaves as its keys, one entry for each
  leaf when the names are distinct, and the raw value under the name of a leaf that is
  neither a user, a channel nor a role; for trees of such leaves it always returns; and
  the path \<open>a \<rightarrow> b\<close> with the leaf \<open>x = 1\<close> under \<open>b\<close> gives \<open>(["a", "b"], {"x": 1})\<close>.
\<close>

theorem argument_reconstruction:
  "(options ctx = JNull \<or> options ctx = JList [] \<longrightarrow>
      create_args_chat_input COT ctx = (ctx, Inr ([], [])))
   \<and> (options ctx = JList (map (enc COT) os) \<and> (\<forall>x \<in> set os. well_typed COT x) \<and>
        create_args_chat_input COT ctx = (ctx', Inr (args, kwargs)) \<longrightarrow>
        args = map (\<lambda>n. Raw (JStr n)) (concat (map names os)) \<and>
        ((\<forall>x \<in> set os. is_leaf x) \<longrightarrow> args = []) \<and>
        distinct (map fst kwargs) \<and>
        fst ` set kwargs = leaf_key ` set (concat (map leaves os)) \<and>
        (distinct (map leaf_key (concat (map leaves os))) \<longrightarrow>
           length kwargs = length (concat (map leaves os))) \<and>
        (\<forall>n t v. last_named (concat (map leaves os)) n = Some (t, v) \<and> raw_type COT t \<longrightarrow>
           map_of kwargs (JStr n) = Some (Raw v)))
   \<and> (options ctx = JList (map (enc COT) os) \<and> (\<forall>x \<in> set os. raw_only COT x) \<longrightarrow>
        (\<exists>a. create_args_chat_input COT ctx = (ctx, Inr a)))
   \<and> (ty \<noteq> SUB_COMMAND COT \<and> ty \<noteq> SUB_COMMAND_GROUP COT \<and> raw_type COT ty \<and>
        options ctx = JList [enc COT (Sub True ''a'' [Sub False ''b'' [Leaf ty ''x'' (JInt 1)]])] \<longrightarrow>
        create_args_chat_input COT ctx =
          (ctx, Inr ([Raw (JStr ''a''), Raw (JStr ''b'')], [(JStr ''x'', Raw (JInt 1))])))"
proof -
  have tree: "args = map (\<lambda>n. Raw (JStr n)) (concat (map names os)) \<and>
        ((\<forall>x \<in> set os. is_leaf x) \<longrightarrow> args = []) \<and>
        distinct (map fst kwargs) \<and>
        fst ` set kwargs = leaf_key ` set (concat (map leaves os)) \<and>
        (distinct (map leaf_key (concat (map leaves os))) \<longrightarrow>
           length kwargs = length (concat (map leaves os))) \<and>
        (\<forall>n t v. last_named (concat (map leaves os)) n = Some (t, v) \<and> raw_type COT t \<longrightarrow>
           map_of kwargs (JStr n) = Some (Raw v))"
    if h: "options ctx = JList (map (enc COT) os)" "\<forall>x \<in> set os. well_typed COT x"
      "create_args_chat_input COT ctx = (ctx', Inr (args, kwargs))"
  proof -
    from create_args_chat_input_tree[OF h]
    have a: "args = map (\<lambda>n. Raw (JStr n)) (concat (map names os))"
      and d: "distinct (map fst kwargs)"
      and f: "fits COT (concat (map leaves os)) (map_of kwargs)"
      unfolding grows_def by auto
    have "args = []" if "\<forall>x \<in> set os. is_leaf x"
      using that a by (simp add: names_is_leaf)
    moreover note a d fits_keys[OF f d]
    moreover have "map_of kwargs (JStr n) = Some (Raw v)"
      if "last_named (concat (map leaves os)) n = Some (t, v) \<and> raw_type COT t" for n t v
      using f that unfolding fits_def by blast
    ultimately show ?thesis by blast
  qed
  from create_args_chat_input_empty[of ctx COT] create_args_chat_input_raw[of ctx COT os]
    nested_path[of ty COT ctx] tree
  show ?thesis by blast
qed

theorem argument_reconstruction_witness:
  "create_args_chat_input \<lparr>SUB_COMMAND = 1, SUB_COMMAND_GROUP = 2, USER = 6, CHANNEL = 7, ROLE = 8\<rparr>
      Context0 = (Context0, Inr ([], []))
   \<and> create_args_chat_input \<lparr>SUB_COMMAND = 1, SUB_COMMAND_GROUP = 2, USER = 6, CHANNEL = 7, ROLE = 8\<rparr>
       (Context0\<lparr>options := JList
          [JObj [(''type'', JInt 2), (''name'', JStr ''a''), (''options'', JList
            [JObj [(''type'', JInt 1), (''name'', JStr ''b''), (''options'', JList
              [JObj [(''type'', JInt 4), (''name'', JStr ''x''), (''value'', JInt 1)]])]])]]\<rparr>) =
       (Context0\<lparr>options := JList
          [JObj [(''type'', JInt 2), (''name'', JStr ''a''), (''options'', JList
            [JObj [(''type'', JInt 1), (''name'', JStr ''b''), (''options'', JList
              [JObj [(''type'', JInt 4), (''name'', JStr ''x''), (''value'', JInt 1)]])]])]]\<rparr>,
        Inr ([Raw (JStr ''a''), Raw (JStr ''b'')], [(JStr ''x'', Raw (JInt 1))]))
   \<and> [Raw (JStr ''a''), Raw (JStr ''b'')] =
       map (\<lambda>n. Raw (JStr n)) (concat (map names [Sub True ''a'' [Sub False ''b'' [Leaf 4 ''x'' (JInt 1)]]]))
   \<and> length [(JStr ''x'', Raw (JInt 1))] =
       length (concat (map leaves [Sub True ''a'' [Sub False ''b'' [Leaf 4 ''x'' (JInt 1)]]]))
   \<and> map_of [(JStr ''x'', Raw (JInt 1))] (JStr ''x'') = Some (Raw (JInt 1))"
proof -
  let ?COT = "\<lparr>SUB_COMMAND = 1, SUB_COMMAND_GROUP = 2, USER = 6, CHANNEL = 7, ROLE = 8\<rparr>"
  let ?os = "[Sub True ''a'' [Sub False ''b'' [Leaf 4 ''x'' (JInt 1)]]]"
  let ?ctx = "Context0\<lparr>options := JList
          [JObj [(''type'', JInt 2), (''name'', JStr ''a''), (''options'', JList
            [JObj [(''type'', JInt 1), (''name'', JStr ''b''), (''options'', JList
              [JObj [(''type'', JInt 4), (''name'', JStr ''x''), (''value'', JInt 1)]])]])]]\<rparr>"
  let ?args = "[Raw (JStr ''a''), Raw (JStr ''b'')]"
  let ?kwargs = "[(JStr ''x'', Raw (JInt 1))]"
  note th = argument_reconstruction[where COT = ?COT and os = ?os and ty = 4
      and args = ?args and kwargs = ?kwargs]
  have e: "options Context0 = JNull \<or> options Context0 = JList []"
    by code_simp
  have c1: "create_args_chat_input ?COT Context0 = (Context0, Inr ([], []))"
    using th[where ctx = Context0, THEN conjunct1, THEN mp, OF e] .
  have p: "(4::int) \<noteq> SUB_COMMAND ?COT \<and> 4 \<noteq> SUB_COMMAND_GROUP ?COT \<and> raw_type ?COT 4 \<and>
      options ?ctx = JList [enc ?COT (Sub True ''a'' [Sub False ''b'' [Leaf 4 ''x'' (JInt 1)]])]"
    by code_simp
  have c4: "create_args_chat_input ?COT ?ctx = (?ctx, Inr (?args, ?kwargs))"
    using th[where ctx = ?ctx, THEN conjunct2, THEN conjunct2, THEN conjunct2, THEN mp, OF p] .
  have o: "options ?ctx = JList (map (enc ?COT) ?os)"
    by code_simp
  have w: "\<forall>x \<in> set ?os. well_typed ?COT x"
    by code_simp
  have r: "\<forall>x \<in> set ?os. raw_only ?COT x"
    by code_simp
  have dl: "distinct (map leaf_key (concat (map leaves ?os)))"
    by code_simp
  have ln: "last_named (concat (map leaves ?os)) ''x'' = Some (4, JInt 1) \<and> raw_type ?COT 4"
    by code_simp
  note c2 = th[where ctx = ?ctx and ctx' = ?ctx, THEN conjunct2, THEN conjunct1, THEN mp,
      OF conjI[OF o conjI[OF w c4]]]
  have a: "?args = map (\<lambda>n. Raw (JStr n)) (concat (map names ?os))"
    using c2[THEN conjunct1] .
  have l: "length ?kwargs = length (concat (map leaves ?os))"
    using c2[THEN conjunct2, THEN conjunct2, THEN conjunct2, THEN conjunct2, THEN conjunct1,
        THEN mp, OF dl] .
  have v: "map_of ?kwargs (JStr ''x'') = Some (Raw (JInt 1))"
    using c2[THEN conjunct2, THEN conjunct2, THEN conjunct2, THEN conjunct2, THEN conjunct2,
        THEN spec, THEN spec, THEN spec, THEN mp, OF ln] .
  have "\<exists>a. create_args_chat_input ?COT ?ctx = (?ctx, Inr a)"
    using th[where ctx = ?ctx, THEN conjunct2, THEN conjunct2, THEN conjunct1, THEN mp,
        OF conjI[OF o r]] .
  from c1 c4 a l v show ?thesis
    by (intro conjI)
qed

section \<open>Unresolved references\<close>

lemma dict_tableD:
  "dict_table kvs tab \<Longrightarrow> map_of kvs tab = Some t \<Longrightarrow>
     \<exists>d. t = JObj d \<and> (\<forall>k v. map_of d k = Some v \<longrightarrow> is_dict v)"
  unfolding dict_table_def by blast

lemma coversD:
  "covers kvs mt ut \<Longrightarrow> map_of kvs mt = Some (JObj d) \<Longrightarrow> map_of d k = Some v \<Longrightarrow>
     \<exists>u w. map_of kvs ut = Some (JObj u) \<and> map_of u k = Some w"
  unfolding covers_def by blast

lemma soundE:
  assumes "sound rsv"
  obtains kvs where "rsv = JObj kvs" "dict_table kvs ''members''" "dict_table kvs ''channels''"
    "dict_table kvs ''roles''" "covers kvs ''members'' ''users''"
proof -
  from assms obtain kvs where "rsv = JObj kvs \<and> dict_table kvs ''members'' \<and>
      dict_table kvs ''channels'' \<and> dict_table kvs ''roles'' \<and> covers kvs ''members'' ''users''"
    unfolding sound_def ..
  then have "rsv = JObj kvs" "dict_table kvs ''members''" "dict_table kvs ''channels''"
    "dict_table kvs ''roles''" "covers kvs ''members'' ''users''"
    by simp_all
  then show thesis by (rule that)
qed

lemma keys_map_of: "s \<in> fst ` set d \<longleftrightarrow> (\<exists>v. map_of d s = Some v)"
  using map_of_eq_None_iff[of d s] by auto

lemma table_ids_mem:
  "s \<in> set (table_ids (JObj kvs) tab) \<longleftrightarrow>
     (\<exists>d v. map_of kvs tab = Some (JObj d) \<and> map_of d s = Some v)"
proof (cases "map_of kvs tab")
  case None
  then show ?thesis by (simp add: table_ids_def)
next
  case (Some t)
  then show ?thesis
    by (cases t) (simp_all add: table_ids_def keys_map_of)
qed

lemma entity_option_sound:
  assumes "sound rsv" and "tab = ''channels'' \<or> tab = ''roles''"
  shows "(s \<notin> set (table_ids rsv tab) \<longrightarrow>
            entity_option k tab (enc COT (Leaf t n (JStr s))) rsv kw = Inl KeyError) \<and>
         (s \<in> set (table_ids rsv tab) \<longrightarrow>
            (\<exists>kw'. entity_option k tab (enc COT (Leaf t n (JStr s))) rsv kw = Inr kw'))"
proof -
  from assms(1) obtain kvs where r: "rsv = JObj kvs"
    and ch: "dict_table kvs ''channels''" and ro: "dict_table kvs ''roles''"
    by (rule soundE)
  from assms(2) ch ro have "dict_table kvs tab" by auto
  note tabs = dict_tableD[OF this]
  show ?thesis
  proof (cases "map_of kvs tab")
    case None
    then show ?thesis
      unfolding r by (simp add: table_ids_mem entity_option_def)
  next
    case (Some tb)
    from tabs[OF Some] obtain d where d: "tb = JObj d"
      and vs: "\<And>k v. map_of d k = Some v \<Longrightarrow> is_dict v" by blast
    show ?thesis
    proof (cases "map_of d s")
      case None
      with Some d show ?thesis
        unfolding r by (simp add: table_ids_mem entity_option_def)
    next
      case (Some v)
      from vs[OF Some] obtain vk where "v = JObj vk"
        by (auto simp: is_dict_conv)
      with Some \<open>map_of kvs tab = Some tb\<close> d show ?thesis
        unfolding r by (simp add: table_ids_mem entity_option_def dict_store_def)
    qed
  qed
qed

lemma user_option_sound:
  assumes "sound rsv" and "merged rsv"
  shows "(s \<notin> set (table_ids rsv ''members'') \<longrightarrow>
            user_option (enc COT (Leaf t n (JStr s))) rsv kw = (rsv, Inl KeyError)) \<and>
         (s \<in> set (table_ids rsv ''members'') \<longrightarrow>
            (\<exists>kw'. user_option (enc COT (Leaf t n (JStr s))) rsv kw = (rsv, Inr kw')))"
proof -
  from assms(1) obtain kvs where r: "rsv = JObj kvs"
    and me: "dict_table kvs ''members''" and co: "covers kvs ''members'' ''users''"
    by (rule soundE)
  note tabs = dict_tableD[OF me]
  note us = coversD[OF co]
  have fr: "fst (user_option (enc COT (Leaf t n (JStr s))) rsv kw) = rsv"
    using assms(2) by (rule user_option_frame)
  show ?thesis
  proof (cases "map_of kvs ''members''")
    case None
    then show ?thesis
      unfolding r by (simp add: table_ids_mem user_option_def)
  next
    case (Some tb)
    from tabs[OF Some] obtain d where d: "tb = JObj d"
      and vs: "\<And>k v. map_of d k = Some v \<Longrightarrow> is_dict v" by blast
    show ?thesis
    proof (cases "map_of d s")
      case None
      with Some d show ?thesis
        unfolding r by (simp add: table_ids_mem user_option_def)
    next
      case (Some v)
      from vs[OF Some] obtain vk where v: "v = JObj vk"
        by (auto simp: is_dict_conv)
      from us[OF \<open>map_of kvs ''members'' = Some tb\<close>[unfolded d] Some]
      obtain u w where u: "map_of kvs ''users'' = Some (JObj u)" "map_of u s = Some w"
        by blast
      have m: "subscript rsv (JStr ''members'') = Inr (JObj d)"
        using \<open>map_of kvs ''members'' = Some tb\<close> d unfolding r by simp
      have va: "subscript (enc COT (Leaf t n (JStr s))) (JStr ''value'') = Inr (JStr s)"
        and na: "subscript (enc COT (Leaf t n (JStr s))) (JStr ''name'') = Inr (JStr n)"
        by simp_all
      have md: "subscript (JObj d) (JStr s) = Inr (JObj vk)"
        using Some v by simp
      have ut: "subscript rsv (JStr ''users'') = Inr (JObj u)"
        using u(1) unfolding r by simp
      have uu: "subscript (JObj u) (JStr s) = Inr w"
        using u(2) by simp
      have "\<exists>kw'. snd (user_option (enc COT (Leaf t n (JStr s))) rsv kw) = Inr kw'"
        unfolding user_option_def m va na md ut uu ebind_simps setitem.simps
        by (simp add: dict_store_def del: replace_child.simps enc.simps)
      with fr have "\<exists>kw'. user_option (enc COT (Leaf t n (JStr s))) rsv kw = (rsv, Inr kw')"
        by (metis prod.collapse)
      moreover have "s \<in> set (table_ids rsv ''members'')"
        using Some \<open>map_of kvs ''members'' = Some tb\<close> d unfolding r table_ids_mem by simp
      ultimately show ?thesis by blast
    qed
  qed
qed

lemma leaf_table_sub:
  "t \<noteq> SUB_COMMAND COT \<Longrightarrow> t \<noteq> SUB_COMMAND_GROUP COT \<Longrightarrow>
     \<not> (py_eq_int (JInt t) (SUB_COMMAND COT) \<or> py_eq_int (JInt t) (SUB_COMMAND_GROUP COT))"
  by simp

lemma option_step_leaf_sound:
  assumes "sound rsv" and "merged rsv"
    and "well_typed COT (Leaf t n v)" and "string_id COT (t, n, v)"
  shows "(dangling COT rsv (t, n, v) \<longrightarrow>
            option_step COT (enc COT (Leaf t n v)) (rsv, Inr a) = (rsv, Inl KeyError)) \<and>
         (\<not> dangling COT rsv (t, n, v) \<longrightarrow>
            (\<exists>a'. option_step COT (enc COT (Leaf t n v)) (rsv, Inr a) = (rsv, Inr a')))"
proof -
  obtain args kw where a: "a = (args, kw)" by (cases a)
  have ty: "subscript (enc COT (Leaf t n v)) (JStr ''type'') = Inr (JInt t)"
    by simp
  from assms(3) have ns: "\<not> (py_eq_int (JInt t) (SUB_COMMAND COT) \<or> py_eq_int (JInt t) (SUB_COMMAND_GROUP COT))"
    by simp
  consider (u) "t = CommandOptionType.USER COT"
    | (c) "t \<noteq> CommandOptionType.USER COT" "t = CHANNEL COT"
    | (r) "t \<noteq> CommandOptionType.USER COT" "t \<noteq> CHANNEL COT" "t = ROLE COT"
    | (o) "raw_type COT t"
    unfolding raw_type_def by blast
  then show ?thesis
  proof cases
    case u
    with assms(4) obtain s where v: "v = JStr s"
      by (cases v) (simp_all add: string_id_def leaf_table_def)
    have d: "dangling COT rsv (t, n, JStr s) \<longleftrightarrow> s \<notin> set (table_ids rsv ''members'')"
      using u by (simp add: dangling_def leaf_table_def)
    have st: "option_step COT (enc COT (Leaf t n (JStr s))) (rsv, Inr (args, kw)) =
        (case user_option (enc COT (Leaf t n (JStr s))) rsv kw of
           (rsv', r) \<Rightarrow> (rsv', ebind r (\<lambda>kw. Inr (args, kw))))"
      using ns u unfolding option_step_def ty[unfolded v] by simp
    from user_option_sound[OF assms(1,2), of s COT t n kw] show ?thesis
      unfolding v a unfolding st d by auto
  next
    case c
    with assms(4) obtain s where v: "v = JStr s"
      by (cases v) (simp_all add: string_id_def leaf_table_def)
    have d: "dangling COT rsv (t, n, JStr s) \<longleftrightarrow> s \<notin> set (table_ids rsv ''channels'')"
      using c by (simp add: dangling_def leaf_table_def)
    have st: "option_step COT (enc COT (Leaf t n (JStr s))) (rsv, Inr (args, kw)) =
        (rsv, ebind (entity_option Channel ''channels'' (enc COT (Leaf t n (JStr s))) rsv kw)
                 (\<lambda>kw. Inr (args, kw)))"
      using ns c unfolding option_step_def ty[unfolded v] by simp
    from entity_option_sound[OF assms(1), of "''channels''" s Channel COT t n kw] show ?thesis
      unfolding v a unfolding st d by auto
  next
    case r
    with assms(4) obtain s where v: "v = JStr s"
      by (cases v) (simp_all add: string_id_def leaf_table_def)
    have d: "dangling COT rsv (t, n, JStr s) \<longleftrightarrow> s \<notin> set (table_ids rsv ''roles'')"
      using r by (simp add: dangling_def leaf_table_def)
    have st: "option_step COT (enc COT (Leaf t n (JStr s))) (rsv, Inr (args, kw)) =
        (rsv, ebind (entity_option Role ''roles'' (enc COT (Leaf t n (JStr s))) rsv kw)
                 (\<lambda>kw. Inr (args, kw)))"
      using ns r unfolding option_step_def ty[unfolded v] by simp
    from entity_option_sound[OF assms(1), of "''roles''" s Role COT t n kw] show ?thesis
      unfolding v a unfolding st d by auto
  next
    case o
    then have "\<not> dangling COT rsv (t, n, v)"
      by (simp add: dangling_def leaf_table_def raw_type_def)
    moreover from assms(3) o
    have "option_step COT (enc COT (Leaf t n v)) (rsv, Inr (args, kw)) =
           (rsv, Inr (args, AList.update (JStr n) (Raw v) kw))"
      by (intro option_step_leaf_raw) simp_all
    ultimately show ?thesis unfolding a by simp
  qed
qed

lemma fold_sound:
  assumes each: "\<And>x a. x \<in> set os \<Longrightarrow>
      ((\<exists>l \<in> set (leaves x). dangling COT rsv l) \<longrightarrow>
          option_step COT (enc COT x) (rsv, Inr a) = (rsv, Inl KeyError)) \<and>
      (\<not> (\<exists>l \<in> set (leaves x). dangling COT rsv l) \<longrightarrow>
          (\<exists>a'. option_step COT (enc COT x) (rsv, Inr a) = (rsv, Inr a')))"
  shows "((\<exists>l \<in> set (concat (map leaves os)). dangling COT rsv l) \<longrightarrow>
          fold (option_step COT) (map (enc COT) os) (rsv, Inr a) = (rsv, Inl KeyError)) \<and>
      (\<not> (\<exists>l \<in> set (concat (map leaves os)). dangling COT rsv l) \<longrightarrow>
          (\<exists>a'. fold (option_step COT) (map (enc COT) os) (rsv, Inr a) = (rsv, Inr a')))"
  using assms
proof (induction os arbitrary: a)
  case Nil
  then show ?case by simp
next
  case (Cons x os)
  show ?case
  proof (cases "\<exists>l \<in> set (leaves x). dangling COT rsv l")
    case True
    with Cons.prems[of x a] have "option_step COT (enc COT x) (rsv, Inr a) = (rsv, Inl KeyError)"
      by simp
    then have "fold (option_step COT) (map (enc COT) (x # os)) (rsv, Inr a) = (rsv, Inl KeyError)"
      by (simp add: fold_option_step_error del: enc.simps)
    with True show ?thesis by auto
  next
    case False
    with Cons.prems[of x a] obtain a1 where
      s: "option_step COT (enc COT x) (rsv, Inr a) = (rsv, Inr a1)"
      by auto
    have "fold (option_step COT) (map (enc COT) (x # os)) (rsv, Inr a) =
        fold (option_step COT) (map (enc COT) os) (rsv, Inr a1)"
      by (simp add: s del: enc.simps)
    moreover have "(\<exists>l \<in> set (concat (map leaves (x # os))). dangling COT rsv l) \<longleftrightarrow>
        (\<exists>l \<in> set (concat (map leaves os)). dangling COT rsv l)"
      using False by auto
    moreover note Cons.IH[of a1] Cons.prems
    ultimately show ?thesis
      by (simp del: enc.simps)
  qed
qed

lemma option_step_sound:
  assumes "sound rsv" and "merged rsv"
    and "well_typed COT x" and "\<forall>l \<in> set (leaves x). string_id COT l"
  shows "((\<exists>l \<in> set (leaves x). dangling COT rsv l) \<longrightarrow>
          option_step COT (enc COT x) (rsv, Inr a) = (rsv, Inl KeyError)) \<and>
      (\<not> (\<exists>l \<in> set (leaves x). dangling COT rsv l) \<longrightarrow>
          (\<exists>a'. option_step COT (enc COT x) (rsv, Inr a) = (rsv, Inr a')))"
  using assms(3,4)
proof (induction x arbitrary: a)
  case (Leaf t n v)
  with option_step_leaf_sound[OF assms(1,2), of COT t n v a] show ?case
    by simp
next
  case (Sub g n os)
  obtain args kw where a: "a = (args, kw)" by (cases a)
  have "((\<exists>l \<in> set (concat (map leaves os)). dangling COT rsv l) \<longrightarrow>
          fold (option_step COT) (map (enc COT) os) (rsv, Inr ([], [])) = (rsv, Inl KeyError)) \<and>
      (\<not> (\<exists>l \<in> set (concat (map leaves os)). dangling COT rsv l) \<longrightarrow>
          (\<exists>a'. fold (option_step COT) (map (enc COT) os) (rsv, Inr ([], [])) = (rsv, Inr a')))"
  proof (rule fold_sound)
    fix x a assume x: "x \<in> set os"
    with Sub.prems have "well_typed COT x" "\<forall>l \<in> set (leaves x). string_id COT l"
      by auto
    from Sub.IH[OF x this]
    show "((\<exists>l \<in> set (leaves x). dangling COT rsv l) \<longrightarrow>
          option_step COT (enc COT x) (rsv, Inr a) = (rsv, Inl KeyError)) \<and>
      (\<not> (\<exists>l \<in> set (leaves x). dangling COT rsv l) \<longrightarrow>
          (\<exists>a'. option_step COT (enc COT x) (rsv, Inr a) = (rsv, Inr a')))" .
  qed
  then show ?case
    unfolding a option_step_Sub by (auto simp del: enc.simps)
qed

lemma entity_table_Inr:
  "entity_table k kvs acc = Inr r \<Longrightarrow>
     (\<forall>kv \<in> set kvs. is_dict (snd kv)) \<and>
     fst ` set r = fst ` set acc \<union> (\<lambda>kv. JStr (fst kv)) ` set kvs"
proof (induction kvs arbitrary: acc)
  case Nil
  then show ?case by simp
next
  case (Cons kv kvs)
  from Cons.prems obtain e where e: "from_dict k (snd kv) = Inr e"
    and rest: "entity_table k kvs (AList.update (JStr (fst kv)) e acc) = Inr r"
    by (auto simp: ebind_Inr)
  from e have "is_dict (snd kv)"
    by (cases "snd kv") simp_all
  with Cons.IH[OF rest] show ?case
    by (auto simp: dom_update[unfolded dom_map_of_conv_image_fst])
qed

lemma parse_table_Inr:
  assumes "parse_table k (JObj kvs) name = Inr cs"
  shows "dict_table kvs name"
    and "fst ` set cs = JStr ` set (table_ids (JObj kvs) name)"
proof -
  from assms obtain items where d: "dict_items (case map_of kvs name of Some v \<Rightarrow> v | None \<Rightarrow> JObj []) = Inr items"
    and et: "entity_table k items [] = Inr cs"
    unfolding parse_table_def by (auto simp: ebind_Inr)
  from d have d': "(case map_of kvs name of Some v \<Rightarrow> v | None \<Rightarrow> JObj []) = JObj items"
    by (cases "case map_of kvs name of Some v \<Rightarrow> v | None \<Rightarrow> JObj []") simp_all
  note t = entity_table_Inr[OF et]
  show "dict_table kvs name"
    unfolding dict_table_def
  proof (intro allI impI)
    fix t' assume s: "map_of kvs name = Some t'"
    with d' have "t' = JObj items" by simp
    moreover have "is_dict v" if "map_of items k' = Some v" for k' v
      using t map_of_SomeD[OF that] by auto
    ultimately show "\<exists>d. t' = JObj d \<and> (\<forall>k v. map_of d k = Some v \<longrightarrow> is_dict v)"
      by blast
  qed
  show "fst ` set cs = JStr ` set (table_ids (JObj kvs) name)"
  proof (cases "map_of kvs name")
    case None
    with d' have "items = []" by simp
    with t None show ?thesis by (simp add: table_ids_def)
  next
    case (Some t')
    with d' have "t' = JObj items" by simp
    with t Some show ?thesis by (auto simp: table_ids_def)
  qed
qed

lemma other_replace:
  "subscript rsv (JStr ''members'') = Inr mtab \<Longrightarrow> name \<noteq> ''members'' \<Longrightarrow>
     subscript (replace_child rsv (JStr ''members'') x) (JStr name) = subscript rsv (JStr name)"
  by (cases rsv) (auto simp: update_conv' split: option.splits)

lemma members_loop_other:
  "members_loop ids rsv ms = Inr (rsv', ms') \<Longrightarrow> name \<noteq> ''members'' \<Longrightarrow>
     subscript rsv' (JStr name) = subscript rsv (JStr name)"
proof (induction ids arbitrary: rsv ms)
  case Nil
  then show ?case by simp
next
  case (Cons i ids)
  from Cons.prems(1) obtain mtab mkvs u where
    m: "subscript rsv (JStr ''members'') = Inr mtab"
    and rest: "members_loop ids
          (replace_child rsv (JStr ''members'')
             (replace_child mtab i (JObj (AList.update ''user'' u mkvs))))
          (AList.update i (Entity Member (AList.update ''user'' u mkvs)) ms) = Inr (rsv', ms')"
    unfolding members_loop_Cons_Inr by blast
  from Cons.IH[OF rest Cons.prems(2)] other_replace[OF m Cons.prems(2)] show ?case by simp
qed

lemma members_loop_good:
  assumes "members_loop ids rsv ms = Inr (rsv', ms')"
    and "subscript rsv (JStr ''members'') = Inr (JObj tab)"
    and "subscript rsv (JStr ''users'') = U"
  shows "\<exists>tab'. subscript rsv' (JStr ''members'') = Inr (JObj tab') \<and>
           fst ` set tab' = fst ` set tab \<and>
           (\<forall>k. good U tab k \<longrightarrow> good U tab' k) \<and>
           (\<forall>i \<in> set ids. \<exists>k. i = JStr k \<and> good U tab' k)"
  using assms
proof (induction ids arbitrary: rsv ms tab)
  case Nil
  then show ?case by simp
next
  case (Cons i ids)
  from Cons.prems(1,2) obtain mkvs utab u where
    md: "subscript (JObj tab) i = Inr (JObj mkvs)"
    and ut: "subscript rsv (JStr ''users'') = Inr utab" and u: "subscript utab i = Inr u"
    and rest: "members_loop ids
          (replace_child rsv (JStr ''members'')
             (replace_child (JObj tab) i (JObj (AList.update ''user'' u mkvs))))
          (AList.update i (Entity Member (AList.update ''user'' u mkvs)) ms) = Inr (rsv', ms')"
    unfolding members_loop_Cons_Inr by auto
  from md obtain k where k: "i = JStr k" and mk: "map_of tab k = Some (JObj mkvs)"
    by (cases i) (auto split: option.splits if_splits)
  from u[unfolded k subscript_JStr_Inr] obtain ukvs where
    uk: "utab = JObj ukvs" "map_of ukvs k = Some u" by blast
  define tab1 where "tab1 = AList.update k (JObj (AList.update ''user'' u mkvs)) tab"
  define rsv1 where "rsv1 = replace_child rsv (JStr ''members'') (JObj tab1)"
  from rest have rest': "members_loop ids rsv1
      (AList.update i (Entity Member (AList.update ''user'' u mkvs)) ms) = Inr (rsv', ms')"
    by (simp add: k rsv1_def tab1_def)
  have 1: "subscript rsv1 (JStr ''members'') = Inr (JObj tab1)"
    unfolding rsv1_def using Cons.prems(2) by (rule members_replace')
  have us: "subscript rsv1 (JStr ''users'') = U"
    unfolding rsv1_def using users_replace[OF Cons.prems(2)] Cons.prems(3) by simp
  from Cons.IH[OF rest' 1 us] obtain tab' where
    t: "subscript rsv' (JStr ''members'') = Inr (JObj tab')"
    "fst ` set tab' = fst ` set tab1"
    "\<forall>k. good U tab1 k \<longrightarrow> good U tab' k"
    "\<forall>i \<in> set ids. \<exists>k. i = JStr k \<and> good U tab' k"
    by blast
  have keys: "fst ` set tab1 = fst ` set tab"
  proof -
    from map_of_SomeD[OF mk] have "k \<in> fst ` set tab" by force
    then show ?thesis
      by (auto simp: tab1_def dom_update[unfolded dom_map_of_conv_image_fst])
  qed
  have U: "U = Inr (JObj ukvs)"
    using ut uk(1) Cons.prems(3) by simp
  have gk: "good U tab1 k"
    unfolding good_def tab1_def U using uk(2) by (simp add: update_conv')
  have mono: "good U tab1 j" if "good U tab j" for j
    using that gk by (cases "j = k") (auto simp: good_def tab1_def update_conv')
  from t(3) gk have "good U tab' k" by blast
  with t mono keys k show ?case
    by auto
qed

lemma parse_resolved_tables:
  assumes "parse_resolved c = Inr c'"
  shows "\<exists>cs rs gs. parse_table Channel (resolved c') ''channels'' = Inr cs \<and>
     parse_table Role (resolved c') ''roles'' = Inr rs \<and>
     parse_table Message (resolved c') ''messages'' = Inr gs \<and> messages c' = Some gs"
proof -
  from assms obtain mtab ids p where
    4: "(case p of (rsv, ms) \<Rightarrow>
     ebind (parse_table Channel rsv ''channels'') (\<lambda>cs.
     ebind (parse_table Role rsv ''roles'') (\<lambda>rs.
     ebind (parse_table Message rsv ''messages'') (\<lambda>gs.
       Inr (c\<lparr>resolved := rsv, members := Some ms, channels := Some cs,
                 roles := Some rs, messages := Some gs\<rparr>))))) = Inr c'"
    unfolding parse_resolved_def ebind_Inr by blast
  obtain rsv ms where p: "p = (rsv, ms)" by (cases p)
  from 4 obtain cs rs gs where "parse_table Channel rsv ''channels'' = Inr cs"
    "parse_table Role rsv ''roles'' = Inr rs" "parse_table Message rsv ''messages'' = Inr gs"
    "c' = c\<lparr>resolved := rsv, members := Some ms, channels := Some cs,
                 roles := Some rs, messages := Some gs\<rparr>"
    unfolding p by (auto simp: ebind_Inr)
  then show ?thesis by simp
qed

lemma parse_resolved_loop:
  assumes "parse_resolved c = Inr c'"
  obtains rkvs ids ms where "resolved c = JObj rkvs"
    and "members_loop ids (resolved c) [] = Inr (resolved c', ms)" and "members c' = Some ms"
    and "map_of rkvs ''members'' = None \<and> ids = [] \<or>
         (\<exists>tab. map_of rkvs ''members'' = Some (JObj tab) \<and> ids = map (\<lambda>kv. JStr (fst kv)) tab) \<or>
         (\<exists>t. map_of rkvs ''members'' = Some t \<and> \<not> is_dict t \<and> ids = [])"
proof -
  from parse_resolved_members[OF assms] obtain mtab ids ms where
    gm: "dict_get (resolved c) ''members'' (JObj []) = Inr mtab"
    and it: "py_iter mtab = Inr ids"
    and lp: "members_loop ids (resolved c) [] = Inr (resolved c', ms)"
    and ms: "members c' = Some ms"
    by blast
  from gm obtain rkvs where r: "resolved c = JObj rkvs"
    by (cases "resolved c") simp_all
  have "map_of rkvs ''members'' = None \<and> ids = [] \<or>
         (\<exists>tab. map_of rkvs ''members'' = Some (JObj tab) \<and> ids = map (\<lambda>kv. JStr (fst kv)) tab) \<or>
         (\<exists>t. map_of rkvs ''members'' = Some t \<and> \<not> is_dict t \<and> ids = [])"
  proof (cases "map_of rkvs ''members''")
    case None
    with gm r it show ?thesis by auto
  next
    case (Some mt)
    with gm r have mt: "mtab = mt" by simp
    have sub: "subscript (resolved c) (JStr ''members'') = Inr mtab"
      using Some r mt by simp
    show ?thesis
    proof (cases mtab)
      case (JObj tab)
      with it Some mt show ?thesis by auto
    next
      case (JList xs)
      with it have "ids = xs" by simp
      with lp sub JList have "xs = []"
        by (auto dest: members_loop_list_empty)
      with \<open>ids = xs\<close> Some mt JList show ?thesis by auto
    next
      case (JStr str)
      show ?thesis
      proof (cases str)
        case Nil
        with it JStr Some mt show ?thesis by auto
      next
        case (Cons ch rest)
        with it JStr have "ids = JStr [ch] # map (\<lambda>c. JStr [c]) rest" by auto
        with lp sub JStr have False
          unfolding members_loop_Cons_Inr by auto
        then show ?thesis ..
      qed
    qed (use it in simp_all)
  qed
  with r lp ms show thesis by (rule that)
qed

lemma parse_resolved_sound:
  assumes "parse_resolved c = Inr c'" and "members_map (resolved c')"
  shows "sound (resolved c')"
proof -
  from parse_resolved_tables[OF assms(1)] obtain cs rs where
    pc: "parse_table Channel (resolved c') ''channels'' = Inr cs"
    and pr: "parse_table Role (resolved c') ''roles'' = Inr rs"
    by blast
  from pc obtain kvs where r': "resolved c' = JObj kvs"
    unfolding parse_table_def by (cases "resolved c'") simp_all
  note ch = parse_table_Inr(1)[OF pc[unfolded r']]
  note ro = parse_table_Inr(1)[OF pr[unfolded r']]
  from assms(1) obtain rkvs ids ms where r: "resolved c = JObj rkvs"
    and lp: "members_loop ids (resolved c) [] = Inr (resolved c', ms)"
    and cases: "map_of rkvs ''members'' = None \<and> ids = [] \<or>
         (\<exists>tab. map_of rkvs ''members'' = Some (JObj tab) \<and> ids = map (\<lambda>kv. JStr (fst kv)) tab) \<or>
         (\<exists>t. map_of rkvs ''members'' = Some t \<and> \<not> is_dict t \<and> ids = [])"
    by (rule parse_resolved_loop)
  have "dict_table kvs ''members'' \<and> covers kvs ''members'' ''users''"
    using cases
  proof (elim disjE conjE exE)
    assume "map_of rkvs ''members'' = None" "ids = []"
    with lp r r' have "map_of kvs ''members'' = None" by simp
    then show ?thesis by (simp add: dict_table_def covers_def)
  next
    fix t assume "map_of rkvs ''members'' = Some t" "\<not> is_dict t" "ids = []"
    with lp r r' have "map_of kvs ''members'' = Some t" by simp
    with assms(2) r' \<open>\<not> is_dict t\<close> have False
      by (simp add: members_map_def)
    then show ?thesis ..
  next
    fix tab assume m: "map_of rkvs ''members'' = Some (JObj tab)"
      and ids: "ids = map (\<lambda>kv. JStr (fst kv)) tab"
    define U where "U = subscript (resolved c) (JStr ''users'')"
    have sub: "subscript (resolved c) (JStr ''members'') = Inr (JObj tab)"
      using m r by simp
    from members_loop_good[OF lp sub U_def[symmetric]] obtain tab' where
      t: "subscript (resolved c') (JStr ''members'') = Inr (JObj tab')"
      "fst ` set tab' = fst ` set tab"
      "\<forall>i \<in> set ids. \<exists>k. i = JStr k \<and> good U tab' k"
      by blast
    from t(1) have mk: "map_of kvs ''members'' = Some (JObj tab')"
      unfolding r' by (simp split: option.splits)
    have U': "subscript (JObj kvs) (JStr ''users'') = U"
      using members_loop_users[OF lp] unfolding U_def r' by simp
    have g: "good U tab' k" if "map_of tab' k = Some v" for k v
    proof -
      from map_of_SomeD[OF that] have "k \<in> fst ` set tab'" by force
      with t(2) have "JStr k \<in> set ids" unfolding ids by auto
      with t(3) show ?thesis by auto
    qed
    have "is_dict v" if "map_of tab' k = Some v" for k v
      using g[OF that] that by (auto simp: good_def)
    then have "dict_table kvs ''members''"
      unfolding dict_table_def mk by auto
    moreover have "covers kvs ''members'' ''users''"
      unfolding covers_def mk
    proof (intro allI impI)
      fix d k v assume "Some (JObj tab') = Some (JObj d)" "map_of d k = Some v"
      then have "good U tab' k" using g by simp
      then obtain u w where "U = Inr (JObj u)" "map_of u k = Some w"
        unfolding good_def by blast
      with U' show "\<exists>u w. map_of kvs ''users'' = Some (JObj u) \<and> map_of u k = Some w"
        by (auto split: option.splits)
    qed
    ultimately show ?thesis ..
  qed
  with ch ro r' show ?thesis
    unfolding sound_def by simp
qed

lemma from_data_sound:
  assumes "from_data ACT dis ap data = Inr ctx" and "members_map (resolved ctx)"
  shows "sound (resolved ctx)"
proof -
  from assms(1) obtain c1 c2 where pr: "parse_resolved c1 = Inr c2"
    and pt: "parse_target ACT c2 = Inr ctx"
    by (rule from_data_Inr)
  have "resolved ctx = resolved (c2\<lparr>target := target ctx\<rparr>)"
    using parse_target_Inr[OF pt] by simp
  then have "resolved ctx = resolved c2" by simp
  with parse_resolved_sound[OF pr] assms(2) show ?thesis by simp
qed

lemma create_args_chat_input_sound:
  assumes "sound (resolved ctx)" and "merged (resolved ctx)"
    and "options ctx = JList (map (enc COT) os)"
    and "\<forall>x \<in> set os. well_typed COT x"
    and "\<forall>l \<in> set (concat (map leaves os)). string_id COT l"
  shows "((\<exists>l \<in> set (concat (map leaves os)). dangling COT (resolved ctx) l) \<longrightarrow>
            create_args_chat_input COT ctx = (ctx, Inl KeyError)) \<and>
         (\<not> (\<exists>l \<in> set (concat (map leaves os)). dangling COT (resolved ctx) l) \<longrightarrow>
            (\<exists>a. create_args_chat_input COT ctx = (ctx, Inr a)))"
proof -
  have "((\<exists>l \<in> set (concat (map leaves os)). dangling COT (resolved ctx) l) \<longrightarrow>
          fold (option_step COT) (map (enc COT) os) (resolved ctx, Inr ([], [])) =
            (resolved ctx, Inl KeyError)) \<and>
      (\<not> (\<exists>l \<in> set (concat (map leaves os)). dangling COT (resolved ctx) l) \<longrightarrow>
          (\<exists>a'. fold (option_step COT) (map (enc COT) os) (resolved ctx, Inr ([], [])) =
            (resolved ctx, Inr a')))"
  proof (rule fold_sound)
    fix x a assume x: "x \<in> set os"
    with assms(4,5) have "well_typed COT x" "\<forall>l \<in> set (leaves x). string_id COT l"
      by auto
    from option_step_sound[OF assms(1,2) this]
    show "((\<exists>l \<in> set (leaves x). dangling COT (resolved ctx) l) \<longrightarrow>
          option_step COT (enc COT x) (resolved ctx, Inr a) = (resolved ctx, Inl KeyError)) \<and>
      (\<not> (\<exists>l \<in> set (leaves x). dangling COT (resolved ctx) l) \<longrightarrow>
          (\<exists>a'. option_step COT (enc COT x) (resolved ctx, Inr a) = (resolved ctx, Inr a')))" .
  qed
  then show ?thesis
    unfolding create_args_chat_input_def assms(3) create_args_recursive_enc
    by (auto simp del: enc.simps)
qed

lemma table_ids_subscript:
  assumes "subscript (JObj kvs') (JStr tab) = subscript (JObj kvs) (JStr tab)"
  shows "table_ids (JObj kvs') tab = table_ids (JObj kvs) tab"
proof -
  from assms have "map_of kvs' tab = map_of kvs tab"
    by (auto split: option.splits)
  then show ?thesis by (simp add: table_ids_def)
qed

lemma parse_resolved_fields:
  assumes "parse_resolved c = Inr c'"
  shows "type c' = type c" and "target_id c' = target_id c"
proof -
  have "type c' = type (c\<lparr>resolved := resolved c', members := members c',
      channels := channels c', roles := roles c', messages := messages c'\<rparr>)"
    using parse_resolved_Inr[OF assms] by simp
  then show "type c' = type c" by simp
  have "target_id c' = target_id (c\<lparr>resolved := resolved c', members := members c',
      channels := channels c', roles := roles c', messages := messages c'\<rparr>)"
    using parse_resolved_Inr[OF assms] by simp
  then show "target_id c' = target_id c" by simp
qed

lemma parse_resolved_member_keys:
  assumes "parse_resolved c = Inr c'" and "s \<notin> set (table_ids (resolved c) ''members'')"
  shows "table_lookup (members c') (JStr s) = Inl KeyError"
proof -
  from assms(1) obtain rkvs ids ms where r: "resolved c = JObj rkvs"
    and lp: "members_loop ids (resolved c) [] = Inr (resolved c', ms)"
    and ms: "members c' = Some ms"
    and cases: "map_of rkvs ''members'' = None \<and> ids = [] \<or>
         (\<exists>tab. map_of rkvs ''members'' = Some (JObj tab) \<and> ids = map (\<lambda>kv. JStr (fst kv)) tab) \<or>
         (\<exists>t. map_of rkvs ''members'' = Some t \<and> \<not> is_dict t \<and> ids = [])"
    by (rule parse_resolved_loop)
  have "JStr s \<notin> set ids"
    using cases
  proof (elim disjE conjE exE)
    fix tab assume "map_of rkvs ''members'' = Some (JObj tab)" "ids = map (\<lambda>kv. JStr (fst kv)) tab"
    with assms(2) show ?thesis
      unfolding r by (auto simp: table_ids_def)
  qed simp_all
  moreover from members_loop_table[OF lp]
  have "\<forall>i. map_of ms i \<noteq> None \<longrightarrow> map_of [] i \<noteq> None \<or> i \<in> set ids"
    by simp
  ultimately have "map_of ms (JStr s) = None"
    by auto
  then show ?thesis
    unfolding ms by (simp add: table_lookup_def dict_lookup_def)
qed

lemma parse_resolved_message_keys:
  assumes "parse_resolved c = Inr c'" and "s \<notin> set (table_ids (resolved c) ''messages'')"
  shows "\<exists>gs. messages c' = Some gs \<and> dict_lookup gs (JStr s) = Inl KeyError"
proof -
  from parse_resolved_tables[OF assms(1)] obtain gs where
    pg: "parse_table Message (resolved c') ''messages'' = Inr gs"
    and gs: "messages c' = Some gs"
    by blast
  from pg obtain kvs where r': "resolved c' = JObj kvs"
    unfolding parse_table_def by (cases "resolved c'") simp_all
  from assms(1) obtain rkvs ids ms where r: "resolved c = JObj rkvs"
    and lp: "members_loop ids (resolved c) [] = Inr (resolved c', ms)"
    by (rule parse_resolved_loop)
  have "subscript (JObj kvs) (JStr ''messages'') = subscript (JObj rkvs) (JStr ''messages'')"
    using members_loop_other[OF lp, of "''messages''"] unfolding r r' by simp
  then have "table_ids (JObj kvs) ''messages'' = table_ids (JObj rkvs) ''messages''"
    by (rule table_ids_subscript)
  with parse_table_Inr(2)[OF pg[unfolded r']] assms(2)
  have "JStr s \<notin> fst ` set gs"
    unfolding r by auto
  then have "map_of gs (JStr s) = None"
    by (simp add: map_of_eq_None_iff)
  with gs show ?thesis
    by (simp add: dict_lookup_def)
qed

lemma parse_target_dangling:
  assumes "parse_resolved c1 = Inr c2"
    and "py_eq_int (type c1) (ApplicationCommandType.USER ACT) \<and> tab = ''members'' \<or>
         \<not> py_eq_int (type c1) (ApplicationCommandType.USER ACT) \<and>
           py_eq_int (type c1) (MESSAGE ACT) \<and> tab = ''messages''"
    and "target_id c1 = JStr s" and "s \<notin> set (table_ids (resolved c1) tab)"
  shows "parse_target ACT c2 = Inl KeyError"
  using assms(2)
proof (elim disjE conjE)
  assume "py_eq_int (type c1) (ApplicationCommandType.USER ACT)" and t: "tab = ''members''"
  moreover from parse_resolved_member_keys[OF assms(1) assms(4)[unfolded t]]
  have "table_lookup (members c2) (JStr s) = Inl KeyError" .
  ultimately show ?thesis
    unfolding parse_target_def parse_resolved_fields[OF assms(1)] assms(3) by simp
next
  assume "\<not> py_eq_int (type c1) (ApplicationCommandType.USER ACT)"
    "py_eq_int (type c1) (MESSAGE ACT)" and t: "tab = ''messages''"
  moreover from parse_resolved_message_keys[OF assms(1) assms(4)[unfolded t]]
  obtain gs where "messages c2 = Some gs" "dict_lookup gs (JStr s) = Inl KeyError"
    by blast
  ultimately show ?thesis
    unfolding parse_target_def parse_resolved_fields[OF assms(1)] assms(3) by simp
qed

lemma from_data_dangling:
  assumes "construct ACT dis ap (if data = JNull then JObj [] else data) = Inr c0"
    and "parse_custom_id c0 = Inr c1" and "parse_resolved c1 = Inr c2"
    and "parse_target ACT c2 = Inl KeyError"
  shows "from_data ACT dis ap data = Inl KeyError"
  unfolding from_data_def assms(1) ebind_simps assms(2) assms(3) assms(4) ..

text \<open>
  C6, as stated, fails: the error of an unresolved reference is not a distinct one.
  A target or a channel option that is not resolved raises \<open>KeyError\<close>, and so do a
  resolved member without a resolved user and an option without a name, where no
  reference is unresolved.
\<close>

theorem unresolved_not_distinct:
  "from_data \<lparr>CHAT_INPUT = 1, USER = 2, MESSAGE = 3\<rparr> None None stale_payload = Inl KeyError
   \<and> from_data \<lparr>CHAT_INPUT = 1, USER = 2, MESSAGE = 3\<rparr> None None orphan_payload = Inl KeyError
   \<and> snd (create_args_chat_input \<lparr>SUB_COMMAND = 1, SUB_COMMAND_GROUP = 2, USER = 6, CHANNEL = 7, ROLE = 8\<rparr>
         (Context0\<lparr>options := JList [JObj [(''type'', JInt 7), (''name'', JStr ''where''),
                                            (''value'', JStr ''5'')]],
            resolved := JObj [(''channels'', JObj [(''4'', JObj [(''id'', JStr ''4'')])])],
            channels := Some [(JStr ''4'', Entity Channel [(''id'', JStr ''4'')])]\<rparr>)) = Inl KeyError
   \<and> snd (create_args_chat_input \<lparr>SUB_COMMAND = 1, SUB_COMMAND_GROUP = 2, USER = 6, CHANNEL = 7, ROLE = 8\<rparr>
         (Context0\<lparr>options := JList [JObj [(''type'', JInt 3), (''value'', JStr ''x'')]]\<rparr>)) =
       Inl KeyError"
proof -
  have 1: "from_data \<lparr>CHAT_INPUT = 1, USER = 2, MESSAGE = 3\<rparr> None None stale_payload = Inl KeyError"
    by (simp add: from_data_def construct_def stale_payload_def parse_custom_id_def
        parse_resolved_def parse_target_def py_or_def seq_index_def parse_table_def dict_lookup_def)
  have 2: "from_data \<lparr>CHAT_INPUT = 1, USER = 2, MESSAGE = 3\<rparr> None None orphan_payload = Inl KeyError"
    by (simp add: from_data_def construct_def orphan_payload_def parse_custom_id_def
        parse_resolved_def py_or_def seq_index_def)
  have 3: "snd (create_args_chat_input \<lparr>SUB_COMMAND = 1, SUB_COMMAND_GROUP = 2, USER = 6, CHANNEL = 7, ROLE = 8\<rparr>
         (Context0\<lparr>options := JList [JObj [(''type'', JInt 7), (''name'', JStr ''where''),
                                            (''value'', JStr ''5'')]],
            resolved := JObj [(''channels'', JObj [(''4'', JObj [(''id'', JStr ''4'')])])],
            channels := Some [(JStr ''4'', Entity Channel [(''id'', JStr ''4'')])]\<rparr>)) = Inl KeyError"
    by code_simp
  have 4: "snd (create_args_chat_input \<lparr>SUB_COMMAND = 1, SUB_COMMAND_GROUP = 2, USER = 6, CHANNEL = 7, ROLE = 8\<rparr>
         (Context0\<lparr>options := JList [JObj [(''type'', JInt 3), (''value'', JStr ''x'')]]\<rparr>)) =
       Inl KeyError"
    by code_simp
  from 1 2 3 4 show ?thesis
    by (intro conjI)
qed

text \<open>
  C6, amended. A reference to an identifier that is absent from its resolved table is
  a hard failure, the \<open>KeyError\<close> of the failed lookup, never a null in place of the
  entity; identifiers are taken to be strings and the resolved tables to be
  dictionaries. Options: for a context that \<open>from_data\<close> has returned, whose \<open>members\<close>
  table is a dictionary when present, and an option tree whose user, channel and role
  leaves carry string identifiers, \<open>create_args_chat_input\<close> raises \<open>KeyError\<close> when some
  such leaf names an identifier that is not in its table (\<open>members\<close>, \<open>channels\<close>,
  \<open>roles\<close>), and returns otherwise. Target: when the type is \<open>USER\<close> or \<open>MESSAGE\<close> and
  \<open>target_id\<close> is a string that is not in the \<open>members\<close>, respectively \<open>messages\<close>, table
  of the payload, \<open>parse_target\<close> raises \<open>KeyError\<close> and so does \<open>from_data\<close>.
\<close>

theorem unresolved_reference:
  "(from_data ACT dis ap data = Inr ctx \<and> members_map (resolved ctx) \<and>
    options ctx = JList (map (enc COT) os) \<and> (\<forall>x \<in> set os. well_typed COT x) \<and>
    (\<forall>l \<in> set (concat (map leaves os)). string_id COT l) \<longrightarrow>
      ((\<exists>l \<in> set (concat (map leaves os)). dangling COT (resolved ctx) l) \<longrightarrow>
         create_args_chat_input COT ctx = (ctx, Inl KeyError)) \<and>
      (\<not> (\<exists>l \<in> set (concat (map leaves os)). dangling COT (resolved ctx) l) \<longrightarrow>
         (\<exists>a. create_args_chat_input COT ctx = (ctx, Inr a))))
   \<and> (construct ACT dis ap (if data = JNull then JObj [] else data) = Inr c0 \<and>
       parse_custom_id c0 = Inr c1 \<and> parse_resolved c1 = Inr c2 \<and>
       (py_eq_int (type c1) (ApplicationCommandType.USER ACT) \<and> tab = ''members'' \<or>
        \<not> py_eq_int (type c1) (ApplicationCommandType.USER ACT) \<and>
          py_eq_int (type c1) (MESSAGE ACT) \<and> tab = ''messages'') \<and>
       target_id c1 = JStr s \<and> s \<notin> set (table_ids (resolved c1) tab) \<longrightarrow>
         parse_target ACT c2 = Inl KeyError \<and> from_data ACT dis ap data = Inl KeyError)"
proof (intro conjI impI; (elim conjE)?)
  assume fd: "from_data ACT dis ap data = Inr ctx" and mm: "members_map (resolved ctx)"
    and o: "options ctx = JList (map (enc COT) os)" and w: "\<forall>x \<in> set os. well_typed COT x"
    and si: "\<forall>l \<in> set (concat (map leaves os)). string_id COT l"
  note r = create_args_chat_input_sound[OF from_data_sound[OF fd mm] from_data_merged[OF fd] o w si]
  {
    assume "\<exists>l \<in> set (concat (map leaves os)). dangling COT (resolved ctx) l"
    with r show "create_args_chat_input COT ctx = (ctx, Inl KeyError)" by blast
  }
  {
    assume "\<not> (\<exists>l \<in> set (concat (map leaves os)). dangling COT (resolved ctx) l)"
    with r show "\<exists>a. create_args_chat_input COT ctx = (ctx, Inr a)" by blast
  }
next
  assume c: "construct ACT dis ap (if data = JNull then JObj [] else data) = Inr c0"
    "parse_custom_id c0 = Inr c1" "parse_resolved c1 = Inr c2"
    and t: "py_eq_int (type c1) (ApplicationCommandType.USER ACT) \<and> tab = ''members'' \<or>
        \<not> py_eq_int (type c1) (ApplicationCommandType.USER ACT) \<and>
          py_eq_int (type c1) (MESSAGE ACT) \<and> tab = ''messages''"
    and s: "target_id c1 = JStr s" "s \<notin> set (table_ids (resolved c1) tab)"
  from c(3) t s show pt: "parse_target ACT c2 = Inl KeyError"
    by (rule parse_target_dangling)
  from c pt show "from_data ACT dis ap data = Inl KeyError"
    by (rule from_data_dangling)
qed

theorem unresolved_reference_witness:
  "from_data \<lparr>CHAT_INPUT = 1, USER = 2, MESSAGE = 3\<rparr> None None channel_payload =
     Inr (Context0\<lparr>options := JList [JObj [(''type'', JInt 7), (''name'', JStr ''where''),
                                          (''value'', JStr ''5'')]],
            resolved := JObj [(''channels'', JObj [(''4'', JObj [(''id'', JStr ''4'')])])],
            channels := Some [(JStr ''4'', Entity Channel [(''id'', JStr ''4'')])]\<rparr>)
   \<and> create_args_chat_input \<lparr>SUB_COMMAND = 1, SUB_COMMAND_GROUP = 2, USER = 6, CHANNEL = 7, ROLE = 8\<rparr>
       (Context0\<lparr>options := JList [JObj [(''type'', JInt 7), (''name'', JStr ''where''),
                                          (''value'', JStr ''5'')]],
            resolved := JObj [(''channels'', JObj [(''4'', JObj [(''id'', JStr ''4'')])])],
            channels := Some [(JStr ''4'', Entity Channel [(''id'', JStr ''4'')])]\<rparr>) =
       (Context0\<lparr>options := JList [JObj [(''type'', JInt 7), (''name'', JStr ''where''),
                                          (''value'', JStr ''5'')]],
            resolved := JObj [(''channels'', JObj [(''4'', JObj [(''id'', JStr ''4'')])])],
            channels := Some [(JStr ''4'', Entity Channel [(''id'', JStr ''4'')])]\<rparr>,
        Inl KeyError)
   \<and> (\<exists>a. create_args_chat_input \<lparr>SUB_COMMAND = 1, SUB_COMMAND_GROUP = 2, USER = 6, CHANNEL = 7, ROLE = 8\<rparr>
       (Context0\<lparr>options := JList [JObj [(''type'', JInt 6), (''name'', JStr ''who''),
                                    (''value'', JStr ''1'')]],
            resolved := JObj
              [(''members'', JObj [(''1'', JObj [(''nick'', JStr ''n''),
                                               (''user'', JObj [(''id'', JStr ''1'')])])]),
               (''users'', JObj [(''1'', JObj [(''id'', JStr ''1'')])])],
            members := Some [(JStr ''1'', Entity Member [(''nick'', JStr ''n''),
                                               (''user'', JObj [(''id'', JStr ''1'')])])]\<rparr>) =
       (Context0\<lparr>options := JList [JObj [(''type'', JInt 6), (''name'', JStr ''who''),
                                    (''value'', JStr ''1'')]],
            resolved := JObj
              [(''members'', JObj [(''1'', JObj [(''nick'', JStr ''n''),
                                               (''user'', JObj [(''id'', JStr ''1'')])])]),
               (''users'', JObj [(''1'', JObj [(''id'', JStr ''1'')])])],
            members := Some [(JStr ''1'', Entity Member [(''nick'', JStr ''n''),
                                               (''user'', JObj [(''id'', JStr ''1'')])])]\<rparr>,
        Inr a))
   \<and> from_data \<lparr>CHAT_INPUT = 1, USER = 2, MESSAGE = 3\<rparr> None None stale_payload = Inl KeyError"
proof -
  let ?ACT = "\<lparr>CHAT_INPUT = 1, USER = 2, MESSAGE = 3\<rparr>"
  let ?COT = "\<lparr>SUB_COMMAND = 1, SUB_COMMAND_GROUP = 2, USER = 6, CHANNEL = 7, ROLE = 8\<rparr>"
  let ?ctx = "Context0\<lparr>options := JList [JObj [(''type'', JInt 7), (''name'', JStr ''where''),
                                          (''value'', JStr ''5'')]],
            resolved := JObj [(''channels'', JObj [(''4'', JObj [(''id'', JStr ''4'')])])],
            channels := Some [(JStr ''4'', Entity Channel [(''id'', JStr ''4'')])]\<rparr>"
  let ?os = "[Leaf 7 ''where'' (JStr ''5'')]"
  let ?ctx2 = "Context0\<lparr>options := JList [JObj [(''type'', JInt 6), (''name'', JStr ''who''),
                                    (''value'', JStr ''1'')]],
            resolved := JObj
              [(''members'', JObj [(''1'', JObj [(''nick'', JStr ''n''),
                                               (''user'', JObj [(''id'', JStr ''1'')])])]),
               (''users'', JObj [(''1'', JObj [(''id'', JStr ''1'')])])],
            members := Some [(JStr ''1'', Entity Member [(''nick'', JStr ''n''),
                                               (''user'', JObj [(''id'', JStr ''1'')])])]\<rparr>"
  let ?os2 = "[Leaf 6 ''who'' (JStr ''1'')]"
  let ?rsv = "JObj [(''messages'',
             JObj [(''42'', JObj [(''id'', JStr ''42''), (''content'', JStr ''hi'')])])]"
  let ?c0 = "Context0\<lparr>type := JInt 3, target_id := JStr ''43'', resolved := ?rsv,
      members := None, channels := None, roles := None, messages := None,
      primary_id := None, handler_state := None\<rparr>"
  let ?c1 = "Context0\<lparr>type := JInt 3, target_id := JStr ''43'', resolved := ?rsv,
      members := None, channels := None, roles := None, messages := None\<rparr>"
  let ?c2 = "Context0\<lparr>type := JInt 3, target_id := JStr ''43'', resolved := ?rsv,
      messages := Some [(JStr ''42'', Entity Message [(''id'', JStr ''42''), (''content'', JStr ''hi'')])]\<rparr>"
  have fd: "from_data ?ACT None None channel_payload = Inr ?ctx"
    by (simp add: from_data_def construct_def channel_payload_def Context0_def parse_custom_id_def
        parse_resolved_def parse_target_def py_or_def seq_index_def parse_table_def dict_store_def)
  have mm: "members_map (resolved ?ctx)" by code_simp
  have o: "options ?ctx = JList (map (enc ?COT) ?os)" by code_simp
  have w: "\<forall>x \<in> set ?os. well_typed ?COT x" by code_simp
  have si: "\<forall>l \<in> set (concat (map leaves ?os)). string_id ?COT l" by code_simp
  have dg: "\<exists>l \<in> set (concat (map leaves ?os)). dangling ?COT (resolved ?ctx) l" by code_simp
  have 1: "create_args_chat_input ?COT ?ctx = (?ctx, Inl KeyError)"
    using unresolved_reference[where ACT = ?ACT and dis = None and ap = None
        and data = channel_payload and ctx = ?ctx and COT = ?COT and os = ?os,
        THEN conjunct1, THEN mp, OF conjI[OF fd conjI[OF mm conjI[OF o conjI[OF w si]]]],
        THEN conjunct1, THEN mp, OF dg] .
  have fd2: "from_data ?ACT None None user_payload = Inr ?ctx2"
    by (simp add: from_data_def construct_def user_payload_def Context0_def parse_custom_id_def
        parse_resolved_def parse_target_def py_or_def seq_index_def parse_table_def dict_store_def)
  have mm2: "members_map (resolved ?ctx2)" by code_simp
  have o2: "options ?ctx2 = JList (map (enc ?COT) ?os2)" by code_simp
  have w2: "\<forall>x \<in> set ?os2. well_typed ?COT x" by code_simp
  have si2: "\<forall>l \<in> set (concat (map leaves ?os2)). string_id ?COT l" by code_simp
  have dg2: "\<not> (\<exists>l \<in> set (concat (map leaves ?os2)). dangling ?COT (resolved ?ctx2) l)" by code_simp
  have 2: "\<exists>a. create_args_chat_input ?COT ?ctx2 = (?ctx2, Inr a)"
    using unresolved_reference[where ACT = ?ACT and dis = None and ap = None
        and data = user_payload and ctx = ?ctx2 and COT = ?COT and os = ?os2,
        THEN conjunct1, THEN mp, OF conjI[OF fd2 conjI[OF mm2 conjI[OF o2 conjI[OF w2 si2]]]],
        THEN conjunct2, THEN mp, OF dg2] .
  have c0: "construct ?ACT None None (if stale_payload = JNull then JObj [] else stale_payload) = Inr ?c0"
    by (simp add: construct_def stale_payload_def Context0_def py_or_def)
  have c1: "parse_custom_id ?c0 = Inr ?c1"
    by (simp add: parse_custom_id_def Context0_def seq_index_def)
  have c2: "parse_resolved ?c1 = Inr ?c2"
    by (simp add: parse_resolved_def Context0_def parse_table_def)
  have ty: "py_eq_int (type ?c1) (ApplicationCommandType.USER ?ACT) \<and> ''messages'' = ''members'' \<or>
        \<not> py_eq_int (type ?c1) (ApplicationCommandType.USER ?ACT) \<and>
          py_eq_int (type ?c1) (MESSAGE ?ACT) \<and> ''messages'' = ''messages''"
    by code_simp
  have ti: "target_id ?c1 = JStr ''43''" by code_simp
  have ab: "''43'' \<notin> set (table_ids (resolved ?c1) ''messages'')" by code_simp
  have 3: "from_data ?ACT None None stale_payload = Inl KeyError"
    using unresolved_reference[where ACT = ?ACT and dis = None and ap = None
        and data = stale_payload and ?c0.0 = ?c0 and ?c1.0 = ?c1 and ?c2.0 = ?c2
        and tab = "''messages''" and s = "''43''",
        THEN conjunct2, THEN mp, OF conjI[OF c0 conjI[OF c1 conjI[OF c2 conjI[OF ty conjI[OF ti ab]]]]],
        THEN conjunct2] .
  from fd 1 2 3 show ?thesis
    by (intro conjI)
qed

section \<open>The target of a user or message command\<close>

lemma resolved_at_subscript:
  "subscript rsv (JStr tab) = Inr (JObj d) \<Longrightarrow> (s, JObj kvs) \<in> set d \<Longrightarrow> resolved_at rsv tab s kvs"
  by (cases rsv) (auto simp: resolved_at_def split: option.splits)

lemma members_loop_entries:
  assumes "members_loop ids rsv ms = Inr (rsv', ms')"
    and "subscript rsv (JStr ''members'') = Inr (JObj tab)"
    and "\<forall>i e. map_of ms i = Some e \<longrightarrow>
           (\<exists>k kvs. i = JStr k \<and> map_of tab k = Some (JObj kvs) \<and> e = Entity Member kvs)"
  shows "\<exists>tab'. subscript rsv' (JStr ''members'') = Inr (JObj tab') \<and>
           (\<forall>i e. map_of ms' i = Some e \<longrightarrow>
              (\<exists>k kvs. i = JStr k \<and> map_of tab' k = Some (JObj kvs) \<and> e = Entity Member kvs))"
  using assms
proof (induction ids arbitrary: rsv ms tab)
  case Nil
  then show ?case by simp
next
  case (Cons i ids)
  from Cons.prems(1,2) obtain mkvs utab u where
    md: "subscript (JObj tab) i = Inr (JObj mkvs)"
    and rest: "members_loop ids
          (replace_child rsv (JStr ''members'')
             (replace_child (JObj tab) i (JObj (AList.update ''user'' u mkvs))))
          (AList.update i (Entity Member (AList.update ''user'' u mkvs)) ms) = Inr (rsv', ms')"
    unfolding members_loop_Cons_Inr by auto
  from md obtain k where k: "i = JStr k" and mk: "map_of tab k = Some (JObj mkvs)"
    by (cases i) (auto split: option.splits if_splits)
  define kvs1 where "kvs1 = AList.update ''user'' u mkvs"
  define tab1 where "tab1 = AList.update k (JObj kvs1) tab"
  define rsv1 where "rsv1 = replace_child rsv (JStr ''members'') (JObj tab1)"
  define ms1 where "ms1 = AList.update i (Entity Member kvs1) ms"
  from rest have rest': "members_loop ids rsv1 ms1 = Inr (rsv', ms')"
    by (simp add: k rsv1_def tab1_def ms1_def kvs1_def)
  have 1: "subscript rsv1 (JStr ''members'') = Inr (JObj tab1)"
    unfolding rsv1_def using Cons.prems(2) by (rule members_replace')
  have 2: "\<forall>j e. map_of ms1 j = Some e \<longrightarrow>
           (\<exists>k kvs. j = JStr k \<and> map_of tab1 k = Some (JObj kvs) \<and> e = Entity Member kvs)"
  proof (intro allI impI)
    fix j e assume j: "map_of ms1 j = Some e"
    show "\<exists>k kvs. j = JStr k \<and> map_of tab1 k = Some (JObj kvs) \<and> e = Entity Member kvs"
    proof (cases "j = i")
      case True
      with j have "e = Entity Member kvs1"
        by (simp add: ms1_def update_conv')
      moreover have "map_of tab1 k = Some (JObj kvs1)"
        by (simp add: tab1_def update_conv')
      ultimately show ?thesis using True k by blast
    next
      case False
      with j have "map_of ms j = Some e"
        by (simp add: ms1_def update_conv')
      with Cons.prems(3) obtain k' kvs where
        k': "j = JStr k'" "map_of tab k' = Some (JObj kvs)" "e = Entity Member kvs"
        by blast
      from False k k'(1) have "k' \<noteq> k" by simp
      with k'(2) have "map_of tab1 k' = Some (JObj kvs)"
        by (simp add: tab1_def update_conv')
      with k' show ?thesis by blast
    qed
  qed
  from Cons.IH[OF rest' 1 2] show ?case .
qed

lemma parse_resolved_member_entries:
  assumes "parse_resolved c = Inr c'" and "members c' = Some ms" and "map_of ms i = Some e"
  shows "\<exists>s kvs. i = JStr s \<and> resolved_at (resolved c') ''members'' s kvs \<and> e = Entity Member kvs"
proof -
  from assms(1) obtain rkvs ids ms0 where r: "resolved c = JObj rkvs"
    and lp: "members_loop ids (resolved c) [] = Inr (resolved c', ms0)"
    and ms0: "members c' = Some ms0"
    and cases: "map_of rkvs ''members'' = None \<and> ids = [] \<or>
         (\<exists>tab. map_of rkvs ''members'' = Some (JObj tab) \<and> ids = map (\<lambda>kv. JStr (fst kv)) tab) \<or>
         (\<exists>t. map_of rkvs ''members'' = Some t \<and> \<not> is_dict t \<and> ids = [])"
    by (rule parse_resolved_loop)
  from ms0 assms(2) have eq: "ms0 = ms" by simp
  from cases show ?thesis
  proof (elim disjE conjE exE)
    assume "ids = []"
    with lp eq assms(3) show ?thesis by simp
  next
    fix t assume "ids = []"
    with lp eq assms(3) show ?thesis by simp
  next
    fix tab assume m: "map_of rkvs ''members'' = Some (JObj tab)"
    have sub: "subscript (resolved c) (JStr ''members'') = Inr (JObj tab)"
      using m r by simp
    from members_loop_entries[OF lp sub] obtain tab' where
      t: "subscript (resolved c') (JStr ''members'') = Inr (JObj tab')"
      and en: "\<forall>i e. map_of ms0 i = Some e \<longrightarrow>
              (\<exists>k kvs. i = JStr k \<and> map_of tab' k = Some (JObj kvs) \<and> e = Entity Member kvs)"
      by auto
    from en assms(3) eq obtain k kvs where
      k: "i = JStr k" "map_of tab' k = Some (JObj kvs)" "e = Entity Member kvs"
      by blast
    from map_of_SomeD[OF k(2)] have "(k, JObj kvs) \<in> set tab'" .
    with t have "resolved_at (resolved c') ''members'' k kvs"
      by (rule resolved_at_subscript)
    with k show ?thesis by blast
  qed
qed

lemma entity_table_entries:
  "entity_table k items acc = Inr r \<Longrightarrow> map_of r i = Some e \<Longrightarrow>
     map_of acc i = Some e \<or>
     (\<exists>s kvs. i = JStr s \<and> (s, JObj kvs) \<in> set items \<and> e = Entity k kvs)"
proof (induction items arbitrary: acc)
  case Nil
  then show ?case by simp
next
  case (Cons kv items)
  from Cons.prems(1) obtain e0 where e0: "from_dict k (snd kv) = Inr e0"
    and rest: "entity_table k items (AList.update (JStr (fst kv)) e0 acc) = Inr r"
    by (auto simp: ebind_Inr)
  from e0 obtain kvs0 where kv: "snd kv = JObj kvs0" "e0 = Entity k kvs0"
    by (cases "snd kv") auto
  from Cons.IH[OF rest Cons.prems(2)]
  consider "map_of (AList.update (JStr (fst kv)) e0 acc) i = Some e"
    | "\<exists>s kvs. i = JStr s \<and> (s, JObj kvs) \<in> set items \<and> e = Entity k kvs"
    by blast
  then show ?case
  proof cases
    case 1
    show ?thesis
    proof (cases "i = JStr (fst kv)")
      case True
      with 1 have "e = e0" by (simp add: update_conv')
      moreover have "(fst kv, JObj kvs0) \<in> set (kv # items)"
        using kv(1) by (cases kv) simp
      ultimately show ?thesis using True kv(2) by blast
    next
      case False
      with 1 show ?thesis by (simp add: update_conv')
    qed
  next
    case 2
    then show ?thesis by auto
  qed
qed

lemma parse_resolved_message_entries:
  assumes "parse_resolved c = Inr c'" and "messages c' = Some gs" and "map_of gs i = Some e"
  shows "\<exists>s kvs. i = JStr s \<and> resolved_at (resolved c') ''messages'' s kvs \<and> e = Entity Message kvs"
proof -
  from parse_resolved_tables[OF assms(1)] assms(2) have
    pg: "parse_table Message (resolved c') ''messages'' = Inr gs"
    by auto
  from pg obtain kvs' where r': "resolved c' = JObj kvs'"
    unfolding parse_table_def by (cases "resolved c'") simp_all
  from pg obtain items where
    d: "dict_items (case map_of kvs' ''messages'' of Some v \<Rightarrow> v | None \<Rightarrow> JObj []) = Inr items"
    and et: "entity_table Message items [] = Inr gs"
    unfolding parse_table_def r' by (auto simp: ebind_Inr)
  from d have d': "(case map_of kvs' ''messages'' of Some v \<Rightarrow> v | None \<Rightarrow> JObj []) = JObj items"
    by (cases "case map_of kvs' ''messages'' of Some v \<Rightarrow> v | None \<Rightarrow> JObj []") simp_all
  from entity_table_entries[OF et assms(3)] obtain s kvs where
    s: "i = JStr s" "(s, JObj kvs) \<in> set items" "e = Entity Message kvs"
    by auto
  from s(2) have "items \<noteq> []" by auto
  with d' have "map_of kvs' ''messages'' = Some (JObj items)"
    by (cases "map_of kvs' ''messages''") auto
  with s(2) have "resolved_at (resolved c') ''messages'' s kvs"
    unfolding r' by (simp add: resolved_at_def)
  with s show ?thesis by blast
qed

lemma table_lookup_Inr:
  "table_lookup t k = Inr e \<Longrightarrow> \<exists>d. t = Some d \<and> map_of d k = Some e"
  by (auto simp: table_lookup_def dict_lookup_def split: option.splits if_splits)

lemma from_data_tables:
  assumes "from_data ACT dis ap data = Inr ctx"
  obtains c1 c2 where "parse_resolved c1 = Inr c2" and "members c2 = members ctx"
    and "messages c2 = messages ctx" and "resolved c2 = resolved ctx"
proof -
  from assms obtain c1 c2 where pr: "parse_resolved c1 = Inr c2"
    and pt: "parse_target ACT c2 = Inr ctx"
    by (rule from_data_Inr)
  have "members ctx = members (c2\<lparr>target := target ctx\<rparr>)"
    "messages ctx = messages (c2\<lparr>target := target ctx\<rparr>)"
    "resolved ctx = resolved (c2\<lparr>target := target ctx\<rparr>)"
    using parse_target_Inr[OF pt] by simp_all
  then have "members c2 = members ctx" "messages c2 = messages ctx" "resolved c2 = resolved ctx"
    by simp_all
  with pr show thesis by (rule that)
qed

text \<open>
  C5. Let \<open>from_data\<close> have built the context. If its type is \<open>USER\<close>, then \<open>target_id\<close>
  is an identifier of the resolved members and the target is the member parsed from the
  record that table holds under it; if its type is \<open>MESSAGE\<close>, the same holds with the
  resolved messages; otherwise the target is null. \<open>create_args\<close> hands a \<open>CHAT_INPUT\<close>
  interaction to the argument reconstructor over \<open>options\<close> and \<open>resolved\<close>, and returns
  the one-element list of the target and no keyword arguments for \<open>USER\<close> and \<open>MESSAGE\<close>.
  For the payload of the spec's scenario, where the type 2 is \<open>MESSAGE\<close>, the content of
  the target is \<open>hi\<close> and \<open>create_args\<close> returns the target alone. The three type
  constants are taken to be distinct.
\<close>

theorem target_and_dispatch:
  assumes "from_data ACT dis ap data = Inr ctx"
    and "ApplicationCommandType.USER ACT \<noteq> MESSAGE ACT"
    and "CHAT_INPUT ACT \<noteq> ApplicationCommandType.USER ACT"
    and "CHAT_INPUT ACT \<noteq> MESSAGE ACT"
  shows "(py_eq_int (type ctx) (ApplicationCommandType.USER ACT) \<longrightarrow>
            (\<exists>s kvs. target_id ctx = JStr s \<and> resolved_at (resolved ctx) ''members'' s kvs \<and>
                 target ctx = Some (Entity Member kvs) \<and>
                 create_args ACT COT ctx = (ctx, Inr (Some ([Ent (Entity Member kvs)], [])))))
       \<and> (py_eq_int (type ctx) (MESSAGE ACT) \<longrightarrow>
            (\<exists>s kvs. target_id ctx = JStr s \<and> resolved_at (resolved ctx) ''messages'' s kvs \<and>
                 target ctx = Some (Entity Message kvs) \<and>
                 create_args ACT COT ctx = (ctx, Inr (Some ([Ent (Entity Message kvs)], [])))))
       \<and> (\<not> py_eq_int (type ctx) (ApplicationCommandType.USER ACT) \<longrightarrow>
           \<not> py_eq_int (type ctx) (MESSAGE ACT) \<longrightarrow> target ctx = None)
       \<and> (py_eq_int (type ctx) (CHAT_INPUT ACT) \<longrightarrow>
            create_args ACT COT ctx =
              (case create_args_recursive COT (JObj [(''options'', options ctx)]) (resolved ctx) of
                 (rsv', r) \<Rightarrow> (ctx\<lparr>resolved := rsv'\<rparr>, ebind r (\<lambda>a. Inr (Some a)))))
       \<and> (data = message_payload \<longrightarrow> MESSAGE ACT = 2 \<longrightarrow>
            (\<exists>e. target ctx = Some e \<and> attr e ''content'' = JStr ''hi'' \<and>
                 create_args ACT COT ctx = (ctx, Inr (Some ([Ent e], [])))))"
proof -
  from assms(1) obtain c2 where pt: "parse_target ACT c2 = Inr ctx"
    by (rule from_data_target)
  note cases = parse_target_cases[OF pt assms(2)]
  from assms(1) obtain c1 c2' where pr: "parse_resolved c1 = Inr c2'"
    and same: "members c2' = members ctx" "messages c2' = messages ctx" "resolved c2' = resolved ctx"
    by (rule from_data_tables)
  have user: "py_eq_int (type ctx) (ApplicationCommandType.USER ACT) \<longrightarrow>
      (\<exists>s kvs. target_id ctx = JStr s \<and> resolved_at (resolved ctx) ''members'' s kvs \<and>
                 target ctx = Some (Entity Member kvs) \<and>
                 create_args ACT COT ctx = (ctx, Inr (Some ([Ent (Entity Member kvs)], []))))"
  proof (rule impI)
    assume u: "py_eq_int (type ctx) (ApplicationCommandType.USER ACT)"
    from cases(1) u obtain e where e: "table_lookup (members ctx) (target_id ctx) = Inr e"
      "target ctx = Some e" by blast
    from table_lookup_Inr[OF e(1)] obtain ms where ms: "members ctx = Some ms"
      "map_of ms (target_id ctx) = Some e" by blast
    from parse_resolved_member_entries[OF pr ms(1)[folded same(1)] ms(2)]
    obtain s kvs where s: "target_id ctx = JStr s" "resolved_at (resolved ctx) ''members'' s kvs"
      "e = Entity Member kvs"
      unfolding same by blast
    from u assms(3) have "\<not> py_eq_int (type ctx) (CHAT_INPUT ACT)"
      using py_eq_int_same by blast
    with u e have "create_args ACT COT ctx = (ctx, Inr (Some ([Ent e], [])))"
      by (simp add: create_args_def target_val_def)
    with e(2) s show "\<exists>s kvs. target_id ctx = JStr s \<and> resolved_at (resolved ctx) ''members'' s kvs \<and>
                 target ctx = Some (Entity Member kvs) \<and>
                 create_args ACT COT ctx = (ctx, Inr (Some ([Ent (Entity Member kvs)], [])))"
      by blast
  qed
  have message: "py_eq_int (type ctx) (MESSAGE ACT) \<longrightarrow>
      (\<exists>s kvs. target_id ctx = JStr s \<and> resolved_at (resolved ctx) ''messages'' s kvs \<and>
                 target ctx = Some (Entity Message kvs) \<and>
                 create_args ACT COT ctx = (ctx, Inr (Some ([Ent (Entity Message kvs)], []))))"
  proof (rule impI)
    assume m: "py_eq_int (type ctx) (MESSAGE ACT)"
    from cases(2) m obtain e where e: "table_lookup (messages ctx) (target_id ctx) = Inr e"
      "target ctx = Some e" by blast
    from table_lookup_Inr[OF e(1)] obtain gs where gs: "messages ctx = Some gs"
      "map_of gs (target_id ctx) = Some e" by blast
    from parse_resolved_message_entries[OF pr gs(1)[folded same(2)] gs(2)]
    obtain s kvs where s: "target_id ctx = JStr s" "resolved_at (resolved ctx) ''messages'' s kvs"
      "e = Entity Message kvs"
      unfolding same by blast
    from m assms(4) have "\<not> py_eq_int (type ctx) (CHAT_INPUT ACT)"
      using py_eq_int_same by blast
    with m e have "create_args ACT COT ctx = (ctx, Inr (Some ([Ent e], [])))"
      by (simp add: create_args_def target_val_def)
    with e(2) s show "\<exists>s kvs. target_id ctx = JStr s \<and> resolved_at (resolved ctx) ''messages'' s kvs \<and>
                 target ctx = Some (Entity Message kvs) \<and>
                 create_args ACT COT ctx = (ctx, Inr (Some ([Ent (Entity Message kvs)], [])))"
      by blast
  qed
  have chat: "py_eq_int (type ctx) (CHAT_INPUT ACT) \<longrightarrow> create_args ACT COT ctx =
              (case create_args_recursive COT (JObj [(''options'', options ctx)]) (resolved ctx) of
                 (rsv', r) \<Rightarrow> (ctx\<lparr>resolved := rsv'\<rparr>, ebind r (\<lambda>a. Inr (Some a))))"
    by (simp add: create_args_def create_args_chat_input_def split: prod.splits)
  have scenario: "data = message_payload \<longrightarrow> MESSAGE ACT = 2 \<longrightarrow>
      (\<exists>e. target ctx = Some e \<and> attr e ''content'' = JStr ''hi'' \<and>
                 create_args ACT COT ctx = (ctx, Inr (Some ([Ent e], []))))"
  proof (intro impI)
    assume d: "data = message_payload" and two: "MESSAGE ACT = 2"
    let ?e = "Entity Message [(''id'', JStr ''42''), (''content'', JStr ''hi'')]"
    from assms(1) message_payload_context[OF two assms(2), of dis ap]
    have t: "type ctx = JInt 2" "target ctx = Some ?e"
      unfolding d by auto
    from t(1) two have "py_eq_int (type ctx) (MESSAGE ACT)"
      by simp
    from message[THEN mp, OF this] t(2)
    show "\<exists>e. target ctx = Some e \<and> attr e ''content'' = JStr ''hi'' \<and>
                 create_args ACT COT ctx = (ctx, Inr (Some ([Ent e], [])))"
      by auto
  qed
  from user message cases(3) chat scenario show ?thesis
    by (intro conjI)
qed

theorem target_and_dispatch_witness:
  "from_data \<lparr>CHAT_INPUT = 1, USER = 2, MESSAGE = 3\<rparr> None None user_target_payload =
     Inr user_target_context
   \<and> resolved_at (resolved user_target_context) ''members'' ''8''
        [(''nick'', JStr ''b''), (''user'', JObj [(''id'', JStr ''8'')])]
   \<and> create_args \<lparr>CHAT_INPUT = 1, USER = 2, MESSAGE = 3\<rparr>
        \<lparr>SUB_COMMAND = 1, SUB_COMMAND_GROUP = 2, USER = 6, CHANNEL = 7, ROLE = 8\<rparr>
        user_target_context =
       (user_target_context,
        Inr (Some ([Ent (Entity Member [(''nick'', JStr ''b''), (''user'', JObj [(''id'', JStr ''8'')])])], [])))
   \<and> from_data \<lparr>CHAT_INPUT = 1, USER = 2, MESSAGE = 3\<rparr> None None message_target_payload =
     Inr message_target_context
   \<and> resolved_at (resolved message_target_context) ''messages'' ''42'' [(''content'', JStr ''hi'')]
   \<and> create_args \<lparr>CHAT_INPUT = 1, USER = 2, MESSAGE = 3\<rparr>
        \<lparr>SUB_COMMAND = 1, SUB_COMMAND_GROUP = 2, USER = 6, CHANNEL = 7, ROLE = 8\<rparr>
        message_target_context =
       (message_target_context, Inr (Some ([Ent (Entity Message [(''content'', JStr ''hi'')])], [])))
   \<and> from_data \<lparr>CHAT_INPUT = 1, USER = 2, MESSAGE = 3\<rparr> None None channel_payload =
     Inr (Context0\<lparr>options := JList [JObj [(''type'', JInt 7), (''name'', JStr ''where''),
                                          (''value'', JStr ''5'')]],
            resolved := JObj [(''channels'', JObj [(''4'', JObj [(''id'', JStr ''4'')])])],
            channels := Some [(JStr ''4'', Entity Channel [(''id'', JStr ''4'')])]\<rparr>)
   \<and> target (Context0\<lparr>options := JList [JObj [(''type'', JInt 7), (''name'', JStr ''where''),
                                          (''value'', JStr ''5'')]],
            resolved := JObj [(''channels'', JObj [(''4'', JObj [(''id'', JStr ''4'')])])],
            channels := Some [(JStr ''4'', Entity Channel [(''id'', JStr ''4'')])]\<rparr>) = None
   \<and> create_args \<lparr>CHAT_INPUT = 1, USER = 2, MESSAGE = 3\<rparr>
        \<lparr>SUB_COMMAND = 1, SUB_COMMAND_GROUP = 2, USER = 6, CHANNEL = 7, ROLE = 8\<rparr>
        (Context0\<lparr>options := JList [JObj [(''type'', JInt 7), (''name'', JStr ''where''),
                                          (''value'', JStr ''5'')]],
            resolved := JObj [(''channels'', JObj [(''4'', JObj [(''id'', JStr ''4'')])])],
            channels := Some [(JStr ''4'', Entity Channel [(''id'', JStr ''4'')])]\<rparr>) =
       (Context0\<lparr>options := JList [JObj [(''type'', JInt 7), (''name'', JStr ''where''),
                                          (''value'', JStr ''5'')]],
            resolved := JObj [(''channels'', JObj [(''4'', JObj [(''id'', JStr ''4'')])])],
            channels := Some [(JStr ''4'', Entity Channel [(''id'', JStr ''4'')])]\<rparr>,
        Inl KeyError)
   \<and> (\<exists>e ctx. from_data \<lparr>CHAT_INPUT = 1, USER = 3, MESSAGE = 2\<rparr> None None message_payload = Inr ctx
        \<and> target ctx = Some e \<and> attr e ''content'' = JStr ''hi''
        \<and> create_args \<lparr>CHAT_INPUT = 1, USER = 3, MESSAGE = 2\<rparr>
             \<lparr>SUB_COMMAND = 1, SUB_COMMAND_GROUP = 2, USER = 6, CHANNEL = 7, ROLE = 8\<rparr> ctx =
            (ctx, Inr (Some ([Ent e], []))))"
proof -
  let ?ACT = "\<lparr>CHAT_INPUT = 1, USER = 2, MESSAGE = 3\<rparr>"
  let ?ACT' = "\<lparr>CHAT_INPUT = 1, USER = 3, MESSAGE = 2\<rparr>"
  let ?COT = "\<lparr>SUB_COMMAND = 1, SUB_COMMAND_GROUP = 2, USER = 6, CHANNEL = 7, ROLE = 8\<rparr>"
  let ?m = "[(''nick'', JStr ''b''), (''user'', JObj [(''id'', JStr ''8'')])]"
  let ?g = "[(''content'', JStr ''hi'')]"
  let ?cc = "Context0\<lparr>options := JList [JObj [(''type'', JInt 7), (''name'', JStr ''where''),
                                          (''value'', JStr ''5'')]],
            resolved := JObj [(''channels'', JObj [(''4'', JObj [(''id'', JStr ''4'')])])],
            channels := Some [(JStr ''4'', Entity Channel [(''id'', JStr ''4'')])]\<rparr>"
  let ?mc = "Context0\<lparr>type := JInt 2, target_id := JStr ''42'',
           resolved := JObj [(''messages'',
             JObj [(''42'', JObj [(''id'', JStr ''42''), (''content'', JStr ''hi'')])])],
           messages := Some [(JStr ''42'', Entity Message [(''id'', JStr ''42''), (''content'', JStr ''hi'')])],
           target := Some (Entity Message [(''id'', JStr ''42''), (''content'', JStr ''hi'')])\<rparr>"
  have h: "ApplicationCommandType.USER ?ACT \<noteq> MESSAGE ?ACT"
    "CHAT_INPUT ?ACT \<noteq> ApplicationCommandType.USER ?ACT" "CHAT_INPUT ?ACT \<noteq> MESSAGE ?ACT"
    by simp_all
  have h': "ApplicationCommandType.USER ?ACT' \<noteq> MESSAGE ?ACT'"
    "CHAT_INPUT ?ACT' \<noteq> ApplicationCommandType.USER ?ACT'" "CHAT_INPUT ?ACT' \<noteq> MESSAGE ?ACT'"
    "MESSAGE ?ACT' = 2"
    by simp_all
  have fdu: "from_data ?ACT None None user_target_payload = Inr user_target_context"
    by (simp add: from_data_def construct_def user_target_payload_def user_target_context_def
        Context0_def parse_custom_id_def parse_resolved_def parse_target_def py_or_def seq_index_def
        parse_table_def dict_store_def dict_lookup_def table_lookup_def)
  have tu: "py_eq_int (type user_target_context) (ApplicationCommandType.USER ?ACT)"
    by (simp add: user_target_context_def)
  from target_and_dispatch[OF fdu h, of ?COT, THEN conjunct1, THEN mp, OF tu]
  obtain s kvs where u: "target_id user_target_context = JStr s"
    "resolved_at (resolved user_target_context) ''members'' s kvs"
    "target user_target_context = Some (Entity Member kvs)"
    "create_args ?ACT ?COT user_target_context =
       (user_target_context, Inr (Some ([Ent (Entity Member kvs)], [])))"
    by blast
  from u(1) have "s = ''8''" by (simp add: user_target_context_def)
  moreover from u(3) have "kvs = ?m" by (simp add: user_target_context_def)
  ultimately have 1: "resolved_at (resolved user_target_context) ''members'' ''8'' ?m"
    and 2: "create_args ?ACT ?COT user_target_context =
       (user_target_context, Inr (Some ([Ent (Entity Member ?m)], [])))"
    using u(2,4) by simp_all
  have fdm: "from_data ?ACT None None message_target_payload = Inr message_target_context"
    by (simp add: from_data_def construct_def message_target_payload_def message_target_context_def
        Context0_def parse_custom_id_def parse_resolved_def parse_target_def py_or_def seq_index_def
        parse_table_def dict_store_def dict_lookup_def table_lookup_def)
  have tm: "py_eq_int (type message_target_context) (MESSAGE ?ACT)"
    by (simp add: message_target_context_def)
  from target_and_dispatch[OF fdm h, of ?COT, THEN conjunct2, THEN conjunct1, THEN mp, OF tm]
  obtain s' kvs' where m: "target_id message_target_context = JStr s'"
    "resolved_at (resolved message_target_context) ''messages'' s' kvs'"
    "target message_target_context = Some (Entity Message kvs')"
    "create_args ?ACT ?COT message_target_context =
       (message_target_context, Inr (Some ([Ent (Entity Message kvs')], [])))"
    by blast
  from m(1) have "s' = ''42''" by (simp add: message_target_context_def)
  moreover from m(3) have "kvs' = ?g" by (simp add: message_target_context_def)
  ultimately have 3: "resolved_at (resolved message_target_context) ''messages'' ''42'' ?g"
    and 4: "create_args ?ACT ?COT message_target_context =
       (message_target_context, Inr (Some ([Ent (Entity Message ?g)], [])))"
    using m(2,4) by simp_all
  have fdc: "from_data ?ACT None None channel_payload = Inr ?cc"
    by (simp add: from_data_def construct_def channel_payload_def Context0_def parse_custom_id_def
        parse_resolved_def parse_target_def py_or_def seq_index_def parse_table_def dict_store_def)
  have tc: "\<not> py_eq_int (type ?cc) (ApplicationCommandType.USER ?ACT)"
    "\<not> py_eq_int (type ?cc) (MESSAGE ?ACT)"
    by (simp_all add: Context0_def)
  from target_and_dispatch[OF fdc h, of ?COT, THEN conjunct2, THEN conjunct2, THEN conjunct1,
      THEN mp, OF tc(1), THEN mp, OF tc(2)]
  have 5: "target ?cc = None" .
  have ci: "py_eq_int (type ?cc) (CHAT_INPUT ?ACT)"
    by (simp add: Context0_def)
  have rc: "create_args_recursive ?COT (JObj [(''options'', options ?cc)]) (resolved ?cc) =
      (resolved ?cc, Inl KeyError)"
    by code_simp
  from target_and_dispatch[OF fdc h, of ?COT, THEN conjunct2, THEN conjunct2, THEN conjunct2,
      THEN conjunct1, THEN mp, OF ci]
  have 7: "create_args ?ACT ?COT ?cc = (?cc, Inl KeyError)"
    unfolding rc by simp
  have fds: "from_data ?ACT' None None message_payload = Inr ?mc"
    by (simp add: from_data_def construct_def message_payload_def Context0_def parse_custom_id_def
        parse_resolved_def parse_target_def py_or_def seq_index_def parse_table_def dict_lookup_def)
  from target_and_dispatch[OF fds h'(1) h'(2) h'(3), of ?COT, THEN conjunct2, THEN conjunct2,
      THEN conjunct2, THEN conjunct2, THEN mp, OF refl, THEN mp, OF h'(4)] fds
  have 6: "\<exists>e ctx. from_data ?ACT' None None message_payload = Inr ctx
        \<and> target ctx = Some e \<and> attr e ''content'' = JStr ''hi''
        \<and> create_args ?ACT' ?COT ctx = (ctx, Inr (Some ([Ent e], [])))"
    by blast
  from fdu 1 2 fdm 3 4 fdc 5 7 6 show ?thesis
    by (intro conjI)
qed

end
